theory Spec2Isabelle
  imports Main "HOL-Library.AList"
begin

section \<open>Risk assessor (engines/analysis/risk_assessor.py)\<close>

text \<open>
  The dictionary returned by \<^verbatim>\<open>_calculate_risk_score\<close>: the keys
  \<^verbatim>\<open>'risk_score'\<close> and \<^verbatim>\<open>'risk_level'\<close>. Python integers are unbounded,
  so the counts and the score are \<^typ>\<open>int\<close>.
\<close>

record risk_data =
  risk_score :: int
  risk_level :: string

definition SCORE_CRITICAL :: int where "SCORE_CRITICAL = 30"
definition SCORE_HIGH :: int where "SCORE_HIGH = 15"
definition SCORE_MEDIUM :: int where "SCORE_MEDIUM = 5"
definition SCORE_LOW :: int where "SCORE_LOW = 1"
definition MAX_SCORE :: int where "MAX_SCORE = 100"

definition calculate_risk_score :: "int \<Rightarrow> int \<Rightarrow> int \<Rightarrow> int \<Rightarrow> risk_data" where
  "calculate_risk_score critical_count high_count medium_count low_count =
     (let risk_score0 = critical_count * SCORE_CRITICAL + high_count * SCORE_HIGH
                        + medium_count * SCORE_MEDIUM + low_count * SCORE_LOW;
          risk_score1 = min risk_score0 MAX_SCORE;
          risk_level1 = (if risk_score1 \<ge> 80 then ''critical''
                         else if risk_score1 \<ge> 50 then ''high''
                         else if risk_score1 \<ge> 20 then ''medium''
                         else ''low'')
      in \<lparr>risk_score = risk_score1, risk_level = risk_level1\<rparr>)"

lemmas score_consts = SCORE_CRITICAL_def SCORE_HIGH_def SCORE_MEDIUM_def SCORE_LOW_def MAX_SCORE_def

section \<open>Strings, integers and regular expressions of the Python runtime\<close>

text \<open>
  The analysers call a few built-ins of the Python runtime: \<^verbatim>\<open>str.startswith\<close>,
  the substring test \<^verbatim>\<open>in\<close>, \<^verbatim>\<open>str.strip\<close>, \<^verbatim>\<open>int\<close> on a string,
  \<^verbatim>\<open>sorted(set(...))\<close>, and \<^verbatim>\<open>re.search\<close> / \<^verbatim>\<open>re.finditer\<close> on fixed patterns.
  They are modelled here once. A character of the model is one of the 256 characters
  with a code point below 256, so a text of the model is a Python string over these
  characters, and the functions below are those of Python on such strings: among these
  characters the decimal digits (the class \<^verbatim>\<open>\d\<close> and the digits that \<^verbatim>\<open>int\<close> reads)
  are \<^verbatim>\<open>0\<close> to \<^verbatim>\<open>9\<close>, the white space characters are the ten of ASCII, \<^verbatim>\<open>U+0085\<close>
  and \<^verbatim>\<open>U+00A0\<close>, and the upper case letters are \<^verbatim>\<open>A\<close> to \<^verbatim>\<open>Z\<close> and \<^verbatim>\<open>U+00C0\<close> to
  \<^verbatim>\<open>U+00DE\<close> without \<^verbatim>\<open>U+00D7\<close>. A text with a character above \<^verbatim>\<open>U+00FF\<close> is outside
  the model.
\<close>

fun startswith :: "string \<Rightarrow> string \<Rightarrow> bool" where
  "startswith s [] = True"
| "startswith [] (p # ps) = False"
| "startswith (c # cs) (p # ps) = (c = p \<and> startswith cs ps)"

fun py_in :: "string \<Rightarrow> string \<Rightarrow> bool" where
  "py_in sub [] = (sub = [])"
| "py_in sub (c # cs) = (startswith (c # cs) sub \<or> py_in sub cs)"

definition sorted_set :: "int list \<Rightarrow> int list" where
  "sorted_set xs = sort (remdups xs)"


definition py_isspace :: "char \<Rightarrow> bool" where
  "py_isspace c = (c \<in> set [CHR 0x20, CHR 0x09, CHR 0x0A, CHR 0x0B, CHR 0x0C, CHR 0x0D,
                              CHR 0x1C, CHR 0x1D, CHR 0x1E, CHR 0x1F, CHR 0x85, CHR 0xA0])"

definition strip :: "string \<Rightarrow> string" where
  "strip s = rev (dropWhile py_isspace (rev (dropWhile py_isspace s)))"

text \<open>
  \<^verbatim>\<open>s.split(sep)\<close> for a non-empty separator, \<^verbatim>\<open>s.split(sep, 1)\<close> and \<^verbatim>\<open>s.lower()\<close>
  on ASCII text.
\<close>

fun split_from :: "string \<Rightarrow> nat \<Rightarrow> string \<Rightarrow> string \<Rightarrow> string list" where
  "split_from sep skip cur [] = [rev cur]"
| "split_from sep skip cur (c # cs) =
     (if skip > 0 then split_from sep (skip - 1) cur cs
      else if startswith (c # cs) sep then rev cur # split_from sep (length sep - 1) [] cs
      else split_from sep 0 (c # cur) cs)"

definition py_split :: "string \<Rightarrow> string \<Rightarrow> string list" where
  "py_split s sep = split_from sep 0 [] s"

fun split1_from :: "string \<Rightarrow> string \<Rightarrow> string \<Rightarrow> string list" where
  "split1_from sep cur [] = [rev cur]"
| "split1_from sep cur (c # cs) =
     (if startswith (c # cs) sep then [rev cur, drop (length sep) (c # cs)]
      else split1_from sep (c # cur) cs)"

definition py_split1 :: "string \<Rightarrow> string \<Rightarrow> string list" where
  "py_split1 s sep = split1_from sep [] s"

definition lower_char :: "char \<Rightarrow> char" where
  "lower_char c =
     (case map_of (zip (''ABCDEFGHIJKLMNOPQRSTUVWXYZ''
                   @ [CHR 0xC0, CHR 0xC1, CHR 0xC2, CHR 0xC3, CHR 0xC4, CHR 0xC5, CHR 0xC6, CHR 0xC7,
                    CHR 0xC8, CHR 0xC9, CHR 0xCA, CHR 0xCB, CHR 0xCC, CHR 0xCD, CHR 0xCE, CHR 0xCF,
                    CHR 0xD0, CHR 0xD1, CHR 0xD2, CHR 0xD3, CHR 0xD4, CHR 0xD5, CHR 0xD6, CHR 0xD8,
                    CHR 0xD9, CHR 0xDA, CHR 0xDB, CHR 0xDC, CHR 0xDD, CHR 0xDE])
                  (''abcdefghijklmnopqrstuvwxyz''
                   @ [CHR 0xE0, CHR 0xE1, CHR 0xE2, CHR 0xE3, CHR 0xE4, CHR 0xE5, CHR 0xE6, CHR 0xE7,
                    CHR 0xE8, CHR 0xE9, CHR 0xEA, CHR 0xEB, CHR 0xEC, CHR 0xED, CHR 0xEE, CHR 0xEF,
                    CHR 0xF0, CHR 0xF1, CHR 0xF2, CHR 0xF3, CHR 0xF4, CHR 0xF5, CHR 0xF6, CHR 0xF8,
                    CHR 0xF9, CHR 0xFA, CHR 0xFB, CHR 0xFC, CHR 0xFD, CHR 0xFE])) c of
        Some l \<Rightarrow> l
      | None \<Rightarrow> c)"

definition lower :: "string \<Rightarrow> string" where
  "lower s = map lower_char s"

text \<open>
  \<^verbatim>\<open>int(s)\<close>: surrounding whitespace is stripped, one sign is allowed, and the body is
  decimal digits, optionally grouped by single underscores, and at most 4300 of them (the
  default of \<^verbatim>\<open>sys.get_int_max_str_digits()\<close>). Anything else raises \<^verbatim>\<open>ValueError\<close>, which
  is \<open>None\<close> here.
\<close>

definition is_digit :: "char \<Rightarrow> bool" where
  "is_digit c = (c \<in> set ''0123456789'')"

definition is_alpha :: "char \<Rightarrow> bool" where
  "is_alpha c = (c \<in> set ''abcdefghijklmnopqrstuvwxyzABCDEFGHIJKLMNOPQRSTUVWXYZ'')"

fun no_double_underscore :: "string \<Rightarrow> bool" where
  "no_double_underscore (a # b # cs) = (\<not> (a = CHR ''_'' \<and> b = CHR ''_'') \<and> no_double_underscore (b # cs))"
| "no_double_underscore _ = True"

definition int_body :: "string \<Rightarrow> int option" where
  "int_body s =
     (if s \<noteq> [] \<and> list_all (\<lambda>c. is_digit c \<or> c = CHR ''_'') s \<and> is_digit (hd s) \<and> is_digit (last s)
         \<and> no_double_underscore s \<and> length (filter is_digit s) \<le> 4300
      then Some (foldl (\<lambda>a c. 10 * a + (int (of_char c) - 48)) 0 (filter is_digit s))
      else None)"

definition py_int :: "string \<Rightarrow> int option" where
  "py_int s =
     (case strip s of
        [] \<Rightarrow> None
      | c # cs \<Rightarrow>
          if c = CHR ''+'' then int_body cs
          else if c = CHR ''-'' then map_option uminus (int_body cs)
          else int_body (c # cs))"


text \<open>
  Regular expressions, restricted to the constructs the patterns of the source use: a
  character class, a greedy \<^verbatim>\<open>+\<close> on a class, concatenation, alternation, a numbered
  group, \<^verbatim>\<open>^\<close>, and negative look-behind and look-ahead of one character. The matcher
  \<open>bt\<close> is a backtracking matcher in the order of Python's \<^verbatim>\<open>re\<close>: it returns every
  way to match at the current position, the preferred one first (left alternative first,
  longest repetition first). A state is the text before the position (reversed), the text
  after it, and the groups captured so far.
\<close>

datatype rx =
    Chr "char \<Rightarrow> bool"
  | Plus "char \<Rightarrow> bool"
  | Eps
  | Seq rx rx
  | Alt rx rx
  | Grp nat rx
  | Bol
  | NotAfter "char \<Rightarrow> bool"
  | NotBefore "char \<Rightarrow> bool"

type_synonym mstate = "string \<times> string \<times> (nat \<times> string) list"

fun bt :: "rx \<Rightarrow> mstate \<Rightarrow> mstate list" where
  "bt (Chr p) (pre, rest, caps) =
     (case rest of [] \<Rightarrow> [] | c # cs \<Rightarrow> if p c then [(c # pre, cs, caps)] else [])"
| "bt (Plus p) (pre, rest, caps) =
     map (\<lambda>k. (rev (take k rest) @ pre, drop k rest, caps))
         (rev [1 ..< Suc (length (takeWhile p rest))])"
| "bt Eps s = [s]"
| "bt (Seq a b) s = concat (map (bt b) (bt a s))"
| "bt (Alt a b) s = bt a s @ bt b s"
| "bt (Grp i r) (pre, rest, caps) =
     map (\<lambda>(pre', rest', caps'). (pre', rest', (i, take (length rest - length rest') rest) # caps'))
         (bt r (pre, rest, caps))"
| "bt Bol (pre, rest, caps) = (if pre = [] then [(pre, rest, caps)] else [])"
| "bt (NotAfter p) (pre, rest, caps) =
     (case pre of [] \<Rightarrow> [(pre, rest, caps)] | c # _ \<Rightarrow> if p c then [] else [(pre, rest, caps)])"
| "bt (NotBefore p) (pre, rest, caps) =
     (case rest of [] \<Rightarrow> [(pre, rest, caps)] | c # _ \<Rightarrow> if p c then [] else [(pre, rest, caps)])"

record match_obj =
  m_start :: nat
  m_text :: string
  m_groups :: "(nat \<times> string) list"

definition match_at :: "rx \<Rightarrow> string \<Rightarrow> string \<Rightarrow> match_obj option" where
  "match_at r pre rest =
     (case bt r (pre, rest, []) of
        [] \<Rightarrow> None
      | (pre', rest', caps) # _ \<Rightarrow>
          Some \<lparr>m_start = length pre, m_text = take (length rest - length rest') rest, m_groups = caps\<rparr>)"

fun search_from :: "rx \<Rightarrow> string \<Rightarrow> string \<Rightarrow> match_obj option" where
  "search_from r pre [] = match_at r pre []"
| "search_from r pre (c # cs) =
     (case match_at r pre (c # cs) of Some m \<Rightarrow> Some m | None \<Rightarrow> search_from r (c # pre) cs)"

definition re_search :: "rx \<Rightarrow> string \<Rightarrow> match_obj option" where
  "re_search r s = search_from r [] s"

fun finditer_from :: "rx \<Rightarrow> nat \<Rightarrow> string \<Rightarrow> string \<Rightarrow> match_obj list" where
  "finditer_from r skip pre [] =
     (if skip = 0 then (case match_at r pre [] of None \<Rightarrow> [] | Some m \<Rightarrow> [m]) else [])"
| "finditer_from r skip pre (c # cs) =
     (if skip > 0 then finditer_from r (skip - 1) (c # pre) cs
      else (case match_at r pre (c # cs) of
              None \<Rightarrow> finditer_from r 0 (c # pre) cs
            | Some m \<Rightarrow> m # finditer_from r (length (m_text m) - 1) (c # pre) cs))"

definition re_finditer :: "rx \<Rightarrow> string \<Rightarrow> match_obj list" where
  "re_finditer r s = finditer_from r 0 [] s"

definition group :: "match_obj \<Rightarrow> nat \<Rightarrow> string" where
  "group m i = (if i = 0 then m_text m else (case map_of (m_groups m) i of Some g \<Rightarrow> g | None \<Rightarrow> []))"

fun lit :: "string \<Rightarrow> rx" where
  "lit [] = Eps"
| "lit (c # cs) = Seq (Chr (\<lambda>x. x = c)) (lit cs)"


text \<open>
  The pattern \<^verbatim>\<open>([A-Za-z]:\\[^:]+|/[^:]+):(\d+)\<close> of the threat identifier, which
  reads \<^verbatim>\<open>path:line\<close> pairs out of a log line, and the loop around it that keeps
  \<^verbatim>\<open>int(match.group(2))\<close> and skips a \<^verbatim>\<open>ValueError\<close>.
\<close>

definition stack_rx :: rx where
  "stack_rx =
     Seq (Grp 1 (Alt (Seq (Chr is_alpha) (Seq (lit [CHR '':'', CHR 0x5C]) (Plus (\<lambda>c. c \<noteq> CHR '':''))))
                     (Seq (lit ''/'') (Plus (\<lambda>c. c \<noteq> CHR '':'')))))
         (Seq (lit '':'') (Grp 2 (Plus is_digit)))"

definition ints_of_group :: "nat \<Rightarrow> match_obj list \<Rightarrow> int list" where
  "ints_of_group i ms = concat (map (\<lambda>m. case py_int (group m i) of None \<Rightarrow> [] | Some n \<Rightarrow> [n]) ms)"

definition stack_lines :: "string \<Rightarrow> int list" where
  "stack_lines s = ints_of_group 2 (re_finditer stack_rx s)"

section \<open>Pattern matcher (engines/static/pattern_matcher.py)\<close>

text \<open>
  A rule of \<^verbatim>\<open>rules.yaml\<close> and a match as \<^verbatim>\<open>match_patterns\<close> reports it. A key read
  with \<^verbatim>\<open>rule.get(key, default)\<close> holds the default when it is absent.
\<close>

record rule =
  rule_id :: string
  rule_name :: string
  rule_pattern :: string
  rule_severity :: string
  rule_description :: string

record pattern_match =
  pm_rule_id :: string
  pm_rule_name :: string
  pm_severity :: string
  pm_line :: int
  pm_matched_text :: string
  pm_description :: string
  pm_context :: string
  pm_col_offset :: nat

text \<open>
  The regular expression library is a parameter of the matcher: \<open>compile\<close> is
  \<^verbatim>\<open>re.compile\<close>, with \<open>None\<close> for a pattern it rejects (\<^verbatim>\<open>re.error\<close>), and
  \<open>finditer regex line\<close> is the list of the successive matches of \<^verbatim>\<open>regex.finditer(line)\<close>,
  each given by its span \<^verbatim>\<open>(match.start(), match.end())\<close>. The text of a match,
  \<^verbatim>\<open>match.group(0)\<close>, is the slice of the line over that span.
\<close>

definition py_slice :: "'a list \<Rightarrow> nat \<Rightarrow> nat \<Rightarrow> 'a list" where
  "py_slice xs a b = take (b - a) (drop a xs)"

fun join :: "string \<Rightarrow> string list \<Rightarrow> string" where
  "join sep [] = []"
| "join sep [x] = x"
| "join sep (x # y # ys) = x @ sep @ join sep (y # ys)"

definition line_matches ::
  "rule \<Rightarrow> string list \<Rightarrow> nat \<Rightarrow> string \<Rightarrow> (nat \<times> nat) list \<Rightarrow> pattern_match list" where
  "line_matches r lines line_num line spans =
     map (\<lambda>(start, stop).
            \<lparr>pm_rule_id = rule_id r,
             pm_rule_name = rule_name r,
             pm_severity = rule_severity r,
             pm_line = int line_num,
             pm_matched_text = py_slice line start stop,
             pm_description = rule_description r,
             pm_context = join [CHR 0x0A] (py_slice lines (line_num - 2) (min (length lines) (line_num + 2))),
             pm_col_offset = start\<rparr>)
         spans"

definition rule_matches ::
  "(string \<Rightarrow> 'rx option) \<Rightarrow> ('rx \<Rightarrow> string \<Rightarrow> (nat \<times> nat) list) \<Rightarrow> string list \<Rightarrow> rule
     \<Rightarrow> pattern_match list" where
  "rule_matches compile finditer lines r =
     (if rule_pattern r = [] then []
      else (case compile (rule_pattern r) of
              None \<Rightarrow> []
            | Some regex \<Rightarrow>
                concat (map (\<lambda>(line_num, line). line_matches r lines line_num line (finditer regex line))
                            (List.enumerate 1 lines))))"

definition source_lines :: "string \<Rightarrow> string list" where
  "source_lines source_code = py_split source_code [CHR 0x0A]"

definition match_patterns ::
  "(string \<Rightarrow> 'rx option) \<Rightarrow> ('rx \<Rightarrow> string \<Rightarrow> (nat \<times> nat) list) \<Rightarrow> string \<Rightarrow> rule list
     \<Rightarrow> pattern_match list" where
  "match_patterns compile finditer source_code rules =
     (if source_code = [] \<or> rules = [] then []
      else sort_key pm_line
             (concat (map (rule_matches compile finditer (source_lines source_code)) rules)))"

text \<open>
  The occurrences of a rule's pattern on a line, as the specification counts them: the
  matches that the compiled pattern finds on the line, and none for a rule that has no
  pattern or whose pattern is rejected by the compiler.
\<close>

definition occurrences ::
  "(string \<Rightarrow> 'rx option) \<Rightarrow> ('rx \<Rightarrow> string \<Rightarrow> (nat \<times> nat) list) \<Rightarrow> rule \<Rightarrow> string
     \<Rightarrow> (nat \<times> nat) list" where
  "occurrences compile finditer r line =
     (if rule_pattern r = [] then []
      else (case compile (rule_pattern r) of None \<Rightarrow> [] | Some regex \<Rightarrow> finditer regex line))"

text \<open>
  The library of this theory as an instance of the two parameters, for patterns that are
  plain text: \<open>compile\<close> rejects the pattern \<^verbatim>\<open>(\<close>, as \<^verbatim>\<open>re.compile\<close> does, and
  takes every other pattern literally.
\<close>

definition literal_compile :: "string \<Rightarrow> rx option" where
  "literal_compile p = (if p = ''('' then None else Some (lit p))"

definition span_finditer :: "rx \<Rightarrow> string \<Rightarrow> (nat \<times> nat) list" where
  "span_finditer r s = map (\<lambda>m. (m_start m, m_start m + length (m_text m))) (re_finditer r s)"

definition sample_rules :: "rule list" where
  "sample_rules =
     [\<lparr>rule_id = ''webshell_eval'', rule_name = ''eval call'', rule_pattern = ''eval'',
       rule_severity = ''critical'', rule_description = ''Dynamic evaluation''\<rparr>,
      \<lparr>rule_id = ''broken'', rule_name = ''broken pattern'', rule_pattern = ''('',
       rule_severity = ''low'', rule_description = ''Rejected by the compiler''\<rparr>,
      \<lparr>rule_id = ''rce_system'', rule_name = ''system call'', rule_pattern = ''system'',
       rule_severity = ''critical'', rule_description = ''Command execution''\<rparr>]"

definition sample_source :: string where
  "sample_source = ''system(a); system(b)'' @ [CHR 0x0A] @ ''x = eval(eval(y))'' @ [CHR 0x0A] @ ''system(c)''"

section \<open>Threat identifier (engines/analysis/threat_identifier.py)\<close>

text \<open>
  The dictionaries of the aggregated bundle are records. A key read with
  \<^verbatim>\<open>d.get(key, default)\<close> holds the default when the key is absent. A system call entry
  is a dictionary (known here by its \<^verbatim>\<open>str\<close>), a log string, or something else; a network
  activity is a dictionary with an optional \<^verbatim>\<open>'line'\<close> string, or something else.
\<close>

record taint_flow =
  tf_source :: string
  tf_sink :: string
  tf_source_line :: int
  tf_sink_line :: int
  tf_severity :: string
  tf_type :: string
  tf_tainted_var :: "string option"

datatype syscall = SyscallDict string | SyscallStr string | SyscallOther

datatype activity = ActivityDict "string option" | ActivityOther

record file_op =
  fo_operation :: string
  fo_file_path :: string
  fo_mode :: string
  fo_is_sensitive :: bool
  fo_line_numbers :: "int list"

record fuzz_result =
  fz_test_input :: string
  fz_return_code :: int
  fz_crashed :: bool
  fz_stdout :: string
  fz_stderr :: string
  fz_network_activities :: "activity list"
  fz_timed_out :: bool
  fz_line_numbers :: "int list"

record memory_finding =
  mf_type :: string
  mf_line_numbers :: "int list"

datatype evidence =
    EvMatch pattern_match
  | EvFlow taint_flow
  | EvSyscall syscall
  | EvLogEntry string
  | EvActivity activity
  | EvLine string
  | EvFileOp file_op
  | EvFuzz fuzz_result
  | EvMemory memory_finding

record threat =
  threat_type :: string
  threat_severity :: string
  threat_description :: string
  threat_evidence :: "evidence list"
  threat_line_numbers :: "int list"

record aggregated_results =
  pattern_matches :: "pattern_match list"
  taint_flows :: "taint_flow list"
  network_activities :: "activity list"
  syscalls :: "syscall list"
  fuzz_results :: "fuzz_result list"
  file_activities :: "file_op list"
  memory_findings :: "memory_finding list"

definition new_threat :: "string \<Rightarrow> string \<Rightarrow> string \<Rightarrow> evidence list \<Rightarrow> int list \<Rightarrow> threat list" where
  "new_threat ty sev descr ev lines =
     (if ev \<noteq> [] then
        [\<lparr>threat_type = ty, threat_severity = sev, threat_description = descr,
          threat_evidence = ev, threat_line_numbers = sorted_set (filter (\<lambda>l. l > 0) lines)\<rparr>]
      else [])"

fun rce_syscall_evidence :: "syscall \<Rightarrow> evidence list" where
  "rce_syscall_evidence (SyscallDict repr) =
     (if py_in ''os.system'' repr \<or> py_in ''subprocess'' repr then [EvSyscall (SyscallDict repr)] else [])"
| "rce_syscall_evidence (SyscallStr s) =
     (if py_in ''os.system'' s \<or> py_in ''subprocess'' s then [EvLogEntry s] else [])"
| "rce_syscall_evidence SyscallOther = []"

fun rce_syscall_lines :: "syscall \<Rightarrow> int list" where
  "rce_syscall_lines (SyscallStr s) =
     (if py_in ''os.system'' s \<or> py_in ''subprocess'' s then stack_lines s else [])"
| "rce_syscall_lines _ = []"

fun activity_lines :: "activity \<Rightarrow> int list" where
  "activity_lines (ActivityDict (Some line_str)) = stack_lines line_str"
| "activity_lines _ = []"

fun network_syscall_evidence :: "syscall \<Rightarrow> evidence list" where
  "network_syscall_evidence (SyscallStr s) = (if py_in ''[ALERT] NETWORK:'' s then [EvLine s] else [])"
| "network_syscall_evidence _ = []"

fun network_syscall_lines :: "syscall \<Rightarrow> int list" where
  "network_syscall_lines (SyscallStr s) = (if py_in ''[ALERT] NETWORK:'' s then stack_lines s else [])"
| "network_syscall_lines _ = []"

definition matches_with :: "string \<Rightarrow> pattern_match list \<Rightarrow> pattern_match list" where
  "matches_with tag ms = filter (\<lambda>m. py_in tag (pm_rule_id m)) ms"

definition rce_threat :: "aggregated_results \<Rightarrow> threat list" where
  "rce_threat a =
     (let ms = filter (\<lambda>m. py_in ''rce_'' (pm_rule_id m) \<or> py_in ''os.system'' (pm_matched_text m))
                 (pattern_matches a);
          fs = filter (\<lambda>f. startswith (tf_sink f) ''os.system'' \<or> py_in ''subprocess'' (tf_sink f))
                 (taint_flows a);
          rce_evidence = map EvMatch ms @ map EvFlow fs @ concat (map rce_syscall_evidence (syscalls a));
          rce_lines = map pm_line ms @ map tf_sink_line fs @ concat (map rce_syscall_lines (syscalls a))
      in new_threat ''RCE'' ''critical''
           ''Remote code execution detected via os.system/subprocess calls'' rce_evidence rce_lines)"

definition cmd_injection_threat :: "aggregated_results \<Rightarrow> threat list" where
  "cmd_injection_threat a =
     (let fs = filter (\<lambda>f. startswith (tf_source f) ''sys.argv'' \<and> startswith (tf_sink f) ''os.system'')
                 (taint_flows a)
      in new_threat ''Command Injection'' ''critical''
           ''Command injection detected: user input (sys.argv) flows to os.system without sanitization''
           (map EvFlow fs) (map tf_sink_line fs))"

definition pattern_threat :: "string \<Rightarrow> string \<Rightarrow> string \<Rightarrow> string \<Rightarrow> aggregated_results \<Rightarrow> threat list" where
  "pattern_threat tag ty sev descr a =
     (let ms = matches_with tag (pattern_matches a)
      in new_threat ty sev descr (map EvMatch ms) (map pm_line ms))"

definition network_threat :: "aggregated_results \<Rightarrow> threat list" where
  "network_threat a =
     (let ms = matches_with ''network_'' (pattern_matches a);
          from_syscalls = (network_activities a = []);
          network_evidence = map EvMatch ms @ map EvActivity (network_activities a)
             @ (if from_syscalls then concat (map network_syscall_evidence (syscalls a)) else []);
          network_lines = map pm_line ms @ concat (map activity_lines (network_activities a))
             @ (if from_syscalls then concat (map network_syscall_lines (syscalls a)) else [])
      in new_threat ''Network Exfiltration'' ''medium''
           ''Network connection activity detected: potential data exfiltration''
           network_evidence network_lines)"

definition sensitive_file_threat :: "aggregated_results \<Rightarrow> threat list" where
  "sensitive_file_threat a =
     (let sensitive_file_evidence = filter fo_is_sensitive (file_activities a)
      in new_threat ''Sensitive File Access'' ''high''
           ''Sensitive file activity detected during execution''
           (map EvFileOp sensitive_file_evidence) (concat (map fo_line_numbers sensitive_file_evidence)))"

definition crash_threat :: "aggregated_results \<Rightarrow> threat list" where
  "crash_threat a =
     (let crash_evidence = filter (\<lambda>r. fz_crashed r \<and> \<not> fz_timed_out r) (fuzz_results a)
      in new_threat ''Runtime Vulnerability'' ''medium''
           ''Runtime crashes detected during fuzzing (may indicate input validation issues)''
           (map EvFuzz crash_evidence) (concat (map fz_line_numbers crash_evidence)))"

definition memory_threat :: "aggregated_results \<Rightarrow> threat list" where
  "memory_threat a =
     (let memory_api = list_ex (\<lambda>f. mf_type f = ''memory_api'') (memory_findings a)
      in new_threat ''Memory Injection'' (if memory_api then ''high'' else ''medium'')
           ''Runtime code execution or memory API usage detected''
           (map EvMemory (memory_findings a)) (concat (map mf_line_numbers (memory_findings a))))"

definition identify_threats :: "aggregated_results \<Rightarrow> threat list" where
  "identify_threats a =
     rce_threat a
     @ cmd_injection_threat a
     @ pattern_threat ''webshell_'' ''WebShell'' ''critical''
         ''WebShell detected: usage of eval/exec/__import__/compile functions'' a
     @ pattern_threat ''backdoor_'' ''Backdoor'' ''high''
         ''Backdoor detected: hardcoded passwords, secret keys, or obfuscated code'' a
     @ pattern_threat ''sql_injection'' ''SQL Injection'' ''high''
         ''SQL injection vulnerability detected: unsafe string concatenation in SQL queries'' a
     @ network_threat a
     @ pattern_threat ''file_'' ''File Operation Risk'' ''medium''
         ''Risky file operations detected: path traversal or sensitive file access'' a
     @ sensitive_file_threat a
     @ crash_threat a
     @ memory_threat a"

fun evidence_lines :: "evidence \<Rightarrow> int list" where
  "evidence_lines (EvMatch m) = [pm_line m]"
| "evidence_lines (EvFlow f) = [tf_sink_line f]"
| "evidence_lines (EvSyscall s) = []"
| "evidence_lines (EvLogEntry s) = stack_lines s"
| "evidence_lines (EvActivity act) = activity_lines act"
| "evidence_lines (EvLine s) = stack_lines s"
| "evidence_lines (EvFileOp op) = fo_line_numbers op"
| "evidence_lines (EvFuzz r) = fz_line_numbers r"
| "evidence_lines (EvMemory f) = mf_line_numbers f"

text \<open>
  What the theorems about the threat identifier are stated with: the line numbers that an
  evidence entry carries (\<open>evidence_lines\<close>, defined above), the relation between a
  threat's evidence and its line numbers, the ten category names in the order the source
  tests them, and two small bundles.
\<close>

definition threat_ok :: "threat \<Rightarrow> bool" where
  "threat_ok t \<longleftrightarrow> threat_evidence t \<noteq> []
      \<and> threat_line_numbers t =
          sorted_set (filter (\<lambda>l. 0 < l) (concat (map evidence_lines (threat_evidence t))))"

definition category_names :: "string list" where
  "category_names = [''RCE'', ''Command Injection'', ''WebShell'', ''Backdoor'', ''SQL Injection'',
     ''Network Exfiltration'', ''File Operation Risk'', ''Sensitive File Access'',
     ''Runtime Vulnerability'', ''Memory Injection'']"

text \<open>
  The evidence of a category: the entries of the bundle that count for it, in the order
  of the bundle (pattern matches, then taint flows, then dynamic entries). A log string
  that counts for RCE appears as a \<^verbatim>\<open>log_entry\<close> entry, a log string that counts for the
  network category as a \<^verbatim>\<open>line\<close> entry, and the log strings count for the network
  category only when the bundle has no network activity.
\<close>

definition category_evidence :: "aggregated_results \<Rightarrow> string \<Rightarrow> evidence list" where
  "category_evidence a c =
     (if c = ''RCE'' then
        map EvMatch (filter (\<lambda>m. py_in ''rce_'' (pm_rule_id m) \<or> py_in ''os.system'' (pm_matched_text m))
                            (pattern_matches a))
        @ map EvFlow (filter (\<lambda>f. startswith (tf_sink f) ''os.system'' \<or> py_in ''subprocess'' (tf_sink f))
                             (taint_flows a))
        @ concat (map (\<lambda>s. case s of
                              SyscallDict repr \<Rightarrow>
                                if py_in ''os.system'' repr \<or> py_in ''subprocess'' repr
                                then [EvSyscall (SyscallDict repr)] else []
                            | SyscallStr l \<Rightarrow>
                                if py_in ''os.system'' l \<or> py_in ''subprocess'' l then [EvLogEntry l] else []
                            | SyscallOther \<Rightarrow> [])
                      (syscalls a))
      else if c = ''Command Injection'' then
        map EvFlow (filter (\<lambda>f. startswith (tf_source f) ''sys.argv'' \<and> startswith (tf_sink f) ''os.system'')
                           (taint_flows a))
      else if c = ''WebShell'' then
        map EvMatch (filter (\<lambda>m. py_in ''webshell_'' (pm_rule_id m)) (pattern_matches a))
      else if c = ''Backdoor'' then
        map EvMatch (filter (\<lambda>m. py_in ''backdoor_'' (pm_rule_id m)) (pattern_matches a))
      else if c = ''SQL Injection'' then
        map EvMatch (filter (\<lambda>m. py_in ''sql_injection'' (pm_rule_id m)) (pattern_matches a))
      else if c = ''Network Exfiltration'' then
        map EvMatch (filter (\<lambda>m. py_in ''network_'' (pm_rule_id m)) (pattern_matches a))
        @ map EvActivity (network_activities a)
        @ (if network_activities a = [] then
             concat (map (\<lambda>s. case s of
                                 SyscallStr l \<Rightarrow> if py_in ''[ALERT] NETWORK:'' l then [EvLine l] else []
                               | _ \<Rightarrow> [])
                         (syscalls a))
           else [])
      else if c = ''File Operation Risk'' then
        map EvMatch (filter (\<lambda>m. py_in ''file_'' (pm_rule_id m)) (pattern_matches a))
      else if c = ''Sensitive File Access'' then
        map EvFileOp (filter fo_is_sensitive (file_activities a))
      else if c = ''Runtime Vulnerability'' then
        map EvFuzz (filter (\<lambda>r. fz_crashed r \<and> \<not> fz_timed_out r) (fuzz_results a))
      else if c = ''Memory Injection'' then
        map EvMemory (memory_findings a)
      else [])"

text \<open>
  The type and the evidence of a threat, and the entry that a category gives to the
  result: none when it has no evidence.
\<close>

definition summary :: "threat \<Rightarrow> string \<times> evidence list" where
  "summary t = (threat_type t, threat_evidence t)"

definition category_entry :: "aggregated_results \<Rightarrow> string \<Rightarrow> (string \<times> evidence list) list" where
  "category_entry a c = (if category_evidence a c = [] then [] else [(c, category_evidence a c)])"

definition rce_match :: "int \<Rightarrow> pattern_match" where
  "rce_match n = \<lparr>pm_rule_id = ''rce_os_system'', pm_rule_name = ''os.system call'',
      pm_severity = ''critical'', pm_line = n, pm_matched_text = ''os.system('',
      pm_description = ''Command execution'', pm_context = ''os.system(cmd)'', pm_col_offset = 0\<rparr>"


definition sensitive_op :: "int list \<Rightarrow> file_op" where
  "sensitive_op ls = \<lparr>fo_operation = ''open'', fo_file_path = ''/etc/passwd'', fo_mode = ''r'',
      fo_is_sensitive = True, fo_line_numbers = ls\<rparr>"

definition webshell_match :: "int \<Rightarrow> pattern_match" where
  "webshell_match n = \<lparr>pm_rule_id = ''webshell_eval'', pm_rule_name = ''eval call'',
      pm_severity = ''critical'', pm_line = n, pm_matched_text = ''eval('',
      pm_description = ''Dynamic evaluation'', pm_context = ''eval(data)'', pm_col_offset = 0\<rparr>"

definition argv_flow :: "int \<Rightarrow> taint_flow" where
  "argv_flow n = \<lparr>tf_source = ''sys.argv[...]'', tf_sink = ''os.system'', tf_source_line = n,
      tf_sink_line = n, tf_severity = ''critical'', tf_type = ''direct'', tf_tainted_var = None\<rparr>"

definition bundle_mixed :: aggregated_results where
  "bundle_mixed = \<lparr>pattern_matches = [webshell_match 0, rce_match 7], taint_flows = [argv_flow 7],
      network_activities = [],
      syscalls = [SyscallStr ''[ALERT] NETWORK: connect | stack=/app/t.py:12'', SyscallOther],
      fuzz_results = [], file_activities = [sensitive_op [-3, 0, 9]], memory_findings = []\<rparr>"

section \<open>Fuzzer (engines/dynamic/fuzzer.py)\<close>

text \<open>
  \<^verbatim>\<open>random.randint\<close> and \<^verbatim>\<open>random.choice\<close> draw from the generator's state. The
  state is modelled as the infinite sequence of raw draws still to come, so that every
  outcome of the generator is the outcome for some sequence: \<open>randint a b\<close> maps the next
  draw into \<open>[a, b]\<close>, \<open>choice xs\<close> maps it to an index of \<open>xs\<close>.
\<close>

type_synonym rng = "nat \<Rightarrow> nat"

definition next_draw :: "rng \<Rightarrow> nat \<times> rng" where
  "next_draw g = (g 0, \<lambda>n. g (Suc n))"

definition randint :: "int \<Rightarrow> int \<Rightarrow> rng \<Rightarrow> int \<times> rng" where
  "randint a b g = (case next_draw g of (d, g') \<Rightarrow> (a + int d mod (b - a + 1), g'))"

definition choice :: "'a list \<Rightarrow> rng \<Rightarrow> 'a \<times> rng" where
  "choice xs g = (case next_draw g of (d, g') \<Rightarrow> (xs ! (d mod length xs), g'))"

definition ascii_letters :: string where
  "ascii_letters = ''abcdefghijklmnopqrstuvwxyzABCDEFGHIJKLMNOPQRSTUVWXYZ''"

definition digits :: string where
  "digits = ''0123456789''"

definition special_chars :: string where
  "special_chars = '';|&><$`'' @ [CHR 0x22, CHR 0x27, CHR 0x5C]"

definition all_chars :: string where
  "all_chars = ascii_letters @ digits @ special_chars"

fun choices :: "nat \<Rightarrow> rng \<Rightarrow> string \<times> rng" where
  "choices 0 g = ([], g)"
| "choices (Suc n) g =
     (case choice all_chars g of (c, g') \<Rightarrow> (case choices n g' of (cs, g'') \<Rightarrow> (c # cs, g'')))"

definition generate_random_string :: "int \<Rightarrow> int \<Rightarrow> rng \<Rightarrow> string \<times> rng" where
  "generate_random_string min_length max_length g =
     (case randint min_length max_length g of (len, g') \<Rightarrow> choices (nat len) g')"

definition injection_patterns :: "string list" where
  "injection_patterns =
     [''; ls'', ''| cat /etc/passwd'', ''& whoami'', ''`id`'', ''$(whoami)'',
      [CHR 0x22] @ ''> /tmp/test'', [CHR 0x27] @ '' || 1=1 --'', ''; rm -rf /'', ''| nc -l 1234'']"

text \<open>
  The slice \<^verbatim>\<open>xs[:n]\<close>: for a negative \<^verbatim>\<open>n\<close> it drops the last \<^verbatim>\<open>-n\<close> elements.
\<close>

definition slice_to :: "'a list \<Rightarrow> int \<Rightarrow> 'a list" where
  "slice_to xs n = (if 0 \<le> n then take (nat n) xs else take (length xs - nat (- n)) xs)"

fun random_cases :: "nat \<Rightarrow> rng \<Rightarrow> string list \<times> rng" where
  "random_cases 0 g = ([], g)"
| "random_cases (Suc n) g =
     (case generate_random_string 1 50 g of
        (s, g') \<Rightarrow> (case random_cases n g' of (ss, g'') \<Rightarrow> (s # ss, g'')))"

definition generate_fuzz_cases :: "int \<Rightarrow> rng \<Rightarrow> string list \<times> rng" where
  "generate_fuzz_cases num_tests g =
     (case random_cases (nat num_tests) g of
        (test_cases, g') \<Rightarrow>
          (slice_to (test_cases
                     @ slice_to injection_patterns (min num_tests (int (length injection_patterns))))
                    (num_tests * 2), g'))"

text \<open>
  What a sandbox run returns (the float \<^verbatim>\<open>execution_time\<close> and the \<^verbatim>\<open>log_file\<close> path
  are left out), and the pattern \<^verbatim>\<open>r'File \"[^\"]+\", line (\\d+)'\<close> that
  \<^verbatim>\<open>fuzz_execution\<close> runs over the standard error of a run. In the raw string the two
  backslashes before \<^verbatim>\<open>d\<close> are a pattern for one backslash, followed by \<^verbatim>\<open>d+\<close>.
\<close>

record sandbox_result =
  sr_return_code :: int
  sr_stdout :: string
  sr_stderr :: string
  sr_log_entries :: "string list"
  sr_timed_out :: bool

definition traceback_rx :: rx where
  "traceback_rx =
     Seq (lit (''File '' @ [CHR 0x22]))
       (Seq (Plus (\<lambda>c. c \<noteq> CHR 0x22))
          (Seq (lit ([CHR 0x22] @ '', line ''))
             (Grp 1 (Seq (Chr (\<lambda>c. c = CHR 0x5C)) (Plus (\<lambda>c. c = CHR ''d''))))))"

definition stderr_line_numbers :: "string \<Rightarrow> int list" where
  "stderr_line_numbers err =
     (if err \<noteq> [] then ints_of_group 1 (re_finditer traceback_rx err) else [])"

text \<open>
  One iteration of the loop of \<^verbatim>\<open>fuzz_execution\<close>. The run of the target is a parameter:
  it returns the sandbox result, or raises (\<open>Inl\<close> with the text of the exception).
  \<^verbatim>\<open>analyze_network_activity\<close> is a parameter too.
\<close>

definition fuzz_one ::
  "(string \<Rightarrow> string + sandbox_result) \<Rightarrow> (string list \<Rightarrow> activity list) \<Rightarrow> string \<Rightarrow> fuzz_result" where
  "fuzz_one run analyze_network_activity test_input =
     (case run test_input of
        Inr result \<Rightarrow>
          \<lparr>fz_test_input = test_input,
           fz_return_code = sr_return_code result,
           fz_crashed = ((sr_return_code result \<noteq> 0 \<and> \<not> sr_timed_out result)
                          \<or> py_in ''Traceback'' (sr_stderr result) \<or> py_in ''Error'' (sr_stderr result)),
           fz_stdout = sr_stdout result,
           fz_stderr = sr_stderr result,
           fz_network_activities =
             (if sr_log_entries result \<noteq> [] then analyze_network_activity (sr_log_entries result) else []),
           fz_timed_out = sr_timed_out result,
           fz_line_numbers = stderr_line_numbers (sr_stderr result)\<rparr>
      | Inl e \<Rightarrow>
          \<lparr>fz_test_input = test_input, fz_return_code = - 1, fz_crashed = True, fz_stdout = [],
           fz_stderr = e, fz_network_activities = [], fz_timed_out = False, fz_line_numbers = []\<rparr>)"

definition fuzz_execution ::
  "(string \<Rightarrow> string + sandbox_result) \<Rightarrow> (string list \<Rightarrow> activity list) \<Rightarrow> int \<Rightarrow> rng \<Rightarrow> fuzz_result list" where
  "fuzz_execution run analyze_network_activity num_tests g =
     map (fuzz_one run analyze_network_activity) (fst (generate_fuzz_cases num_tests g))"

text \<open>
  What the theorems about the fuzzer are stated with: the shape of a random test string
  (between 1 and 50 characters, hence between 1 and 100, all from \<open>all_chars\<close>), a
  generator state to run the fuzzer on, and a traceback as the interpreter prints it.
\<close>

definition fuzz_string_ok :: "string \<Rightarrow> bool" where
  "fuzz_string_ok s \<longleftrightarrow> 1 \<le> length s \<and> length s \<le> 50 \<and> length s \<le> 100 \<and> set s \<subseteq> set all_chars"

definition sample_rng :: rng where
  "sample_rng n = 7 * n + 3"

definition traceback_text :: string where
  "traceback_text = ''Traceback (most recent call last):'' @ [CHR 0x0A] @ ''  File '' @ [CHR 0x22]
      @ ''/app/target.py'' @ [CHR 0x22] @ '', line 12, in <module>'' @ [CHR 0x0A]
      @ ''ValueError: bad input'' @ [CHR 0x0A]"

section \<open>File activity monitor (engines/dynamic/file_monitor.py)\<close>

text \<open>
  The pattern \<^verbatim>\<open>r'([A-Za-z]:\\\\[^:]+|/[^:]+):(\\d+)'\<close> of
  \<^verbatim>\<open>analyze_file_activity\<close>: in the raw string, four backslashes are a pattern for two
  backslashes, and \<^verbatim>\<open>\\d+\<close> is a pattern for one backslash followed by \<^verbatim>\<open>d+\<close>.
\<close>

definition file_stack_rx :: rx where
  "file_stack_rx =
     Seq (Grp 1 (Alt (Seq (Chr is_alpha) (Seq (lit [CHR '':'', CHR 0x5C, CHR 0x5C]) (Plus (\<lambda>c. c \<noteq> CHR '':''))))
                     (Seq (lit ''/'') (Plus (\<lambda>c. c \<noteq> CHR '':'')))))
         (Seq (lit '':'') (Grp 2 (Seq (Chr (\<lambda>c. c = CHR 0x5C)) (Plus (\<lambda>c. c = CHR ''d'')))))"

definition analyze_file_line :: "string \<Rightarrow> file_op list" where
  "analyze_file_line line =
     (if py_in ''FILE'' line then
        (case py_split (strip line) ''FILE'' of
           [part0, part1] \<Rightarrow>
             (let operation_part = strip part1 in
              case py_split1 operation_part '':'' of
                [operation, after] \<Rightarrow>
                  [\<lparr>fo_operation = lower (strip operation),
                    fo_file_path = strip (hd (py_split after ''(mode:'')),
                    fo_mode = (if py_in ''(mode:'' operation_part
                               then strip (hd (py_split (py_split operation_part ''(mode:'' ! 1) '')''))
                               else []),
                    fo_is_sensitive = py_in ''[ALERT]'' line,
                    fo_line_numbers = (if py_in ''stack='' line
                                       then ints_of_group 2 (re_finditer file_stack_rx line)
                                       else [])\<rparr>]
              | _ \<Rightarrow> [])
         | _ \<Rightarrow> [])
      else [])"

definition analyze_file_activity :: "string list \<Rightarrow> file_op list" where
  "analyze_file_activity lines = concat (map analyze_file_line lines)"

text \<open>
  A log line as the hook of \<^verbatim>\<open>open\<close> writes it for a read of a sensitive file.
\<close>

definition file_log_line :: string where
  "file_log_line = ''[2026-01-01 10:00:00.123] [ALERT] FILE READ: /etc/passwd (mode: r) | stack=/app/target.py:12 -> /app/target.py:30''
      @ [CHR 0x0A]"

section \<open>Control flow structures (engines/static/cfg_analysis.py)\<close>

text \<open>
  The statements of a Python syntax tree, as far as the analyzer tells them apart: the
  four structures it records, each with its \<^verbatim>\<open>lineno\<close> and its statement lists (for
  \<^verbatim>\<open>ast.Try\<close> the body, the bodies of the handlers, \<^verbatim>\<open>orelse\<close> and \<^verbatim>\<open>finalbody\<close>), and
  every other statement with the statements nested in it (the body of a function, of a
  class, of a \<^verbatim>\<open>with\<close> block). Expressions hold no statement and are left out, and with
  them the \<^verbatim>\<open>condition\<close>, \<^verbatim>\<open>target\<close> and \<^verbatim>\<open>iter\<close> texts of a structure.
\<close>

datatype stmt =
  If_stmt int "stmt list" "stmt list"
| For_stmt int "stmt list" "stmt list"
| While_stmt int "stmt list" "stmt list"
| Try_stmt int "stmt list" "stmt list list" "stmt list" "stmt list"
| Other_stmt int "stmt list"

fun lineno :: "stmt \<Rightarrow> int" where
  "lineno (If_stmt l b e) = l"
| "lineno (For_stmt l b e) = l"
| "lineno (While_stmt l b e) = l"
| "lineno (Try_stmt l b hs e f) = l"
| "lineno (Other_stmt l b) = l"

fun is_structure :: "stmt \<Rightarrow> bool" where
  "is_structure (Other_stmt l b) = False"
| "is_structure s = True"

text \<open>
  \<^verbatim>\<open>_get_body_lines\<close>: the line of every statement of the body and, for a nested
  structure, the body lines of each of its statement lists; sorted, without duplicates.
\<close>

fun get_body_lines :: "stmt list \<Rightarrow> int list"
  and stmt_lines :: "stmt \<Rightarrow> int list" where
  "get_body_lines body = sorted_set (concat (map stmt_lines body))"
| "stmt_lines (If_stmt l b e) = l # get_body_lines b @ (if e \<noteq> [] then get_body_lines e else [])"
| "stmt_lines (For_stmt l b e) = l # get_body_lines b @ (if e \<noteq> [] then get_body_lines e else [])"
| "stmt_lines (While_stmt l b e) = l # get_body_lines b @ (if e \<noteq> [] then get_body_lines e else [])"
| "stmt_lines (Try_stmt l b hs e f) =
     l # get_body_lines b @ concat (map get_body_lines hs)
       @ (if e \<noteq> [] then get_body_lines e else [])
       @ (if f \<noteq> [] then get_body_lines f else [])"
| "stmt_lines (Other_stmt l b) = [l]"

text \<open>
  \<^verbatim>\<open>_get_end_line\<close>: the largest of the node's own line, the lines of the statements of
  its body, the end lines of the structures among them, and the lines of the statements
  directly in \<^verbatim>\<open>orelse\<close> and \<^verbatim>\<open>finalbody\<close>. The analyzer applies it to the four
  structures only; a node of another kind has a body at most.
\<close>

fun direct_max :: "int \<Rightarrow> stmt list \<Rightarrow> int" where
  "direct_max max_line [] = max_line"
| "direct_max max_line (s # ss) = direct_max (max max_line (lineno s)) ss"

fun body_max :: "int \<Rightarrow> stmt list \<Rightarrow> int"
  and get_end_line :: "stmt \<Rightarrow> int" where
  "body_max max_line [] = max_line"
| "body_max max_line (s # ss) =
     body_max (if is_structure s then max (max max_line (lineno s)) (get_end_line s)
               else max max_line (lineno s)) ss"
| "get_end_line (If_stmt l b e) = direct_max (body_max l b) e"
| "get_end_line (For_stmt l b e) = direct_max (body_max l b) e"
| "get_end_line (While_stmt l b e) = direct_max (body_max l b) e"
| "get_end_line (Try_stmt l b hs e f) = direct_max (direct_max (body_max l b) e) f"
| "get_end_line (Other_stmt l b) = body_max l b"

record cfg =
  cfg_type :: string
  start_line :: int
  end_line :: int
  body_lines :: "int list"
  else_lines :: "int list"
  except_lines :: "int list option"
  finally_lines :: "int list option"

text \<open>
  \<^verbatim>\<open>visit_If\<close>, \<^verbatim>\<open>visit_For\<close>, \<^verbatim>\<open>visit_While\<close> and \<^verbatim>\<open>visit_Try\<close>: the record appended for
  a structure, then \<^verbatim>\<open>generic_visit\<close> over its statement lists in the order of the
  fields. A node of another kind appends nothing and its children are visited.
\<close>

fun cfg_structure :: "stmt \<Rightarrow> cfg list" where
  "cfg_structure (If_stmt l b e) =
     [\<lparr>cfg_type = ''if'', start_line = l, end_line = get_end_line (If_stmt l b e),
       body_lines = get_body_lines b,
       else_lines = (if e \<noteq> [] then get_body_lines e else []),
       except_lines = None, finally_lines = None\<rparr>]"
| "cfg_structure (For_stmt l b e) =
     [\<lparr>cfg_type = ''for'', start_line = l, end_line = get_end_line (For_stmt l b e),
       body_lines = get_body_lines b,
       else_lines = (if e \<noteq> [] then get_body_lines e else []),
       except_lines = None, finally_lines = None\<rparr>]"
| "cfg_structure (While_stmt l b e) =
     [\<lparr>cfg_type = ''while'', start_line = l, end_line = get_end_line (While_stmt l b e),
       body_lines = get_body_lines b,
       else_lines = (if e \<noteq> [] then get_body_lines e else []),
       except_lines = None, finally_lines = None\<rparr>]"
| "cfg_structure (Try_stmt l b hs e f) =
     [\<lparr>cfg_type = ''try'', start_line = l, end_line = get_end_line (Try_stmt l b hs e f),
       body_lines = get_body_lines b,
       else_lines = (if e \<noteq> [] then get_body_lines e else []),
       except_lines = Some (concat (map get_body_lines hs)),
       finally_lines = Some (if f \<noteq> [] then get_body_lines f else [])\<rparr>]"
| "cfg_structure (Other_stmt l b) = []"

fun cfg_visit :: "stmt \<Rightarrow> cfg list" where
  "cfg_visit (If_stmt l b e) = cfg_structure (If_stmt l b e) @ concat (map cfg_visit b) @ concat (map cfg_visit e)"
| "cfg_visit (For_stmt l b e) = cfg_structure (For_stmt l b e) @ concat (map cfg_visit b) @ concat (map cfg_visit e)"
| "cfg_visit (While_stmt l b e) = cfg_structure (While_stmt l b e) @ concat (map cfg_visit b) @ concat (map cfg_visit e)"
| "cfg_visit (Try_stmt l b hs e f) =
     cfg_structure (Try_stmt l b hs e f) @ concat (map cfg_visit b) @ concat (map (\<lambda>h. concat (map cfg_visit h)) hs)
       @ concat (map cfg_visit e) @ concat (map cfg_visit f)"
| "cfg_visit (Other_stmt l b) = concat (map cfg_visit b)"

text \<open>
  \<^verbatim>\<open>analyze\<close>: the tree is \<open>None\<close> or a module, given by the list of its statements.
\<close>

fun cfg_analyze :: "stmt list option \<Rightarrow> cfg list" where
  "cfg_analyze None = []"
| "cfg_analyze (Some module_body) = concat (map cfg_visit module_body)"

text \<open>
  A tree as the parser builds it: no statement lies on a line above the statement it is
  nested in.
\<close>

fun below :: "int \<Rightarrow> stmt \<Rightarrow> bool" where
  "below n (If_stmt l b e) = (n \<le> l \<and> list_all (below l) b \<and> list_all (below l) e)"
| "below n (For_stmt l b e) = (n \<le> l \<and> list_all (below l) b \<and> list_all (below l) e)"
| "below n (While_stmt l b e) = (n \<le> l \<and> list_all (below l) b \<and> list_all (below l) e)"
| "below n (Try_stmt l b hs e f) =
     (n \<le> l \<and> list_all (below l) b \<and> list_all (list_all (below l)) hs
        \<and> list_all (below l) e \<and> list_all (below l) f)"
| "below n (Other_stmt l b) = (n \<le> l \<and> list_all (below l) b)"

definition well_formed :: "stmt list \<Rightarrow> bool" where
  "well_formed module_body = list_all (below 1) module_body"

text \<open>
  The body of a statement (\<^verbatim>\<open>node.body\<close>), and all the statements of a tree in the order
  in which \<^verbatim>\<open>generic_visit\<close> reaches them.
\<close>

fun stmt_body :: "stmt \<Rightarrow> stmt list" where
  "stmt_body (If_stmt l b e) = b"
| "stmt_body (For_stmt l b e) = b"
| "stmt_body (While_stmt l b e) = b"
| "stmt_body (Try_stmt l b hs e f) = b"
| "stmt_body (Other_stmt l b) = b"

fun nodes :: "stmt \<Rightarrow> stmt list" where
  "nodes (If_stmt l b e) = If_stmt l b e # concat (map nodes b) @ concat (map nodes e)"
| "nodes (For_stmt l b e) = For_stmt l b e # concat (map nodes b) @ concat (map nodes e)"
| "nodes (While_stmt l b e) = While_stmt l b e # concat (map nodes b) @ concat (map nodes e)"
| "nodes (Try_stmt l b hs e f) =
     Try_stmt l b hs e f # concat (map nodes b) @ concat (map (\<lambda>h. concat (map nodes h)) hs)
       @ concat (map nodes e) @ concat (map nodes f)"
| "nodes (Other_stmt l b) = Other_stmt l b # concat (map nodes b)"

definition tree_nodes :: "stmt list \<Rightarrow> stmt list" where
  "tree_nodes module_body = concat (map nodes module_body)"

text \<open>
  Three programs: \<^verbatim>\<open>if x:\<close> on line 1 with \<^verbatim>\<open>y = 1\<close> on line 2; the same on one line,
  \<^verbatim>\<open>if x: y = 1\<close>; and a \<^verbatim>\<open>for\<close> loop on line 1 around \<^verbatim>\<open>try:\<close> (line 2), \<^verbatim>\<open>f()\<close>
  (line 3), \<^verbatim>\<open>except E:\<close> (line 4), \<^verbatim>\<open>g()\<close> (line 5).
\<close>

definition if_two_lines :: "stmt list" where
  "if_two_lines = [If_stmt 1 [Other_stmt 2 []] []]"

definition if_one_line :: "stmt list" where
  "if_one_line = [If_stmt 1 [Other_stmt 1 []] []]"

definition for_try_except :: "stmt list" where
  "for_try_except = [For_stmt 1 [Try_stmt 2 [Other_stmt 3 []] [[Other_stmt 5 []]] [] []] []]"

section \<open>Taint analysis of Python code (engines/static/taint_analysis.py)\<close>

text \<open>
  The nodes of a Python syntax tree, as far as the analyzer tells them apart. A call has
  its line, the called expression, the positional arguments and the keyword arguments; an
  assignment has its line, its targets and its value; a constant is given by its
  \<^verbatim>\<open>repr\<close>; every other node is given by its children in the order of its fields (a
  module, an expression statement, a function definition). \<^verbatim>\<open>ast.dump\<close>, which the
  analyzer uses for the text of a node it has no short form for, is a parameter.
\<close>

datatype pyast =
    Name string
  | Attribute pyast string
  | Subscript pyast pyast
  | Call int pyast "pyast list" "pyast list"
  | BinOp pyast pyast
  | Constant string
  | Assign int "pyast list" pyast
  | Node "pyast list"

record source_entry =
  se_source :: string
  se_line :: int
  se_tainted_var :: string

record sink_entry =
  sk_sink :: string
  sk_line :: int
  sk_args :: "string list"

record analyzer =
  taint_sources :: "source_entry list"
  taint_sinks :: "sink_entry list"
  taint_flows_found :: "taint_flow list"
  current_tainted_vars :: "string set"
  var_assignments :: "string \<rightharpoonup> int"

definition new_analyzer :: analyzer where
  "new_analyzer = \<lparr>taint_sources = [], taint_sinks = [], taint_flows_found = [],
     current_tainted_vars = {}, var_assignments = Map.empty\<rparr>"

fun is_taint_source :: "pyast \<Rightarrow> bool" where
  "is_taint_source (Subscript (Attribute (Name v) attr) slice) = (v = ''sys'' \<and> attr = ''argv'')"
| "is_taint_source (Call l (Name f) args kws) = (f = ''input'' \<or> f = ''raw_input'')"
| "is_taint_source _ = False"

fun is_taint_sink :: "pyast \<Rightarrow> string option" where
  "is_taint_sink (Call l (Attribute (Name v) attr) args kws) =
     (if v = ''os'' then (if attr = ''system'' \<or> attr = ''popen'' then Some (''os.'' @ attr) else None)
      else if v = ''subprocess'' then
        (if attr = ''call'' \<or> attr = ''run'' \<or> attr = ''Popen'' then Some (''subprocess.'' @ attr) else None)
      else None)"
| "is_taint_sink (Call l (Name f) args kws) = (if f = ''eval'' \<or> f = ''exec'' then Some f else None)"
| "is_taint_sink _ = None"

fun get_variable_name :: "pyast \<Rightarrow> string option" where
  "get_variable_name (Name v) = Some v"
| "get_variable_name (Attribute (Name v) attr) = Some (v @ ''.'' @ attr)"
| "get_variable_name _ = None"

fun get_node_repr :: "(pyast \<Rightarrow> string) \<Rightarrow> pyast \<Rightarrow> string" where
  "get_node_repr dump (Name v) = v"
| "get_node_repr dump (Attribute (Name v) attr) = v @ ''.'' @ attr"
| "get_node_repr dump (Subscript (Attribute (Name v) attr) slice) = v @ ''.'' @ attr @ ''[...]''"
| "get_node_repr dump (Call l (Name f) args kws) = f @ ''(...)''"
| "get_node_repr dump (BinOp left right) = get_node_repr dump left @ '' + '' @ get_node_repr dump right"
| "get_node_repr dump (Constant r) = r"
| "get_node_repr dump node = dump node"

text \<open>
  A name that is \<^verbatim>\<open>None\<close> or empty is false in a condition of the source.
\<close>

definition tainted_name :: "string option \<Rightarrow> analyzer \<Rightarrow> bool" where
  "tainted_name var_name st =
     (case var_name of None \<Rightarrow> False | Some v \<Rightarrow> v \<noteq> [] \<and> v \<in> current_tainted_vars st)"

text \<open>
  \<^verbatim>\<open>visit_Assign\<close> before its \<^verbatim>\<open>generic_visit\<close>: one step of the loop over the targets,
  and the loop.
\<close>

definition assign_target :: "(pyast \<Rightarrow> string) \<Rightarrow> int \<Rightarrow> pyast \<Rightarrow> analyzer \<Rightarrow> pyast \<Rightarrow> analyzer" where
  "assign_target dump line val st target =
     (case get_variable_name target of
        None \<Rightarrow> st
      | Some v \<Rightarrow>
          if v = [] then st
          else st\<lparr>current_tainted_vars := insert v (current_tainted_vars st),
                  var_assignments := (var_assignments st)(v \<mapsto> line),
                  taint_sources := taint_sources st
                    @ [\<lparr>se_source = get_node_repr dump val, se_line = line, se_tainted_var = v\<rparr>]\<rparr>)"

definition visit_Assign :: "(pyast \<Rightarrow> string) \<Rightarrow> int \<Rightarrow> pyast list \<Rightarrow> pyast \<Rightarrow> analyzer \<Rightarrow> analyzer" where
  "visit_Assign dump line targets val st =
     (if is_taint_source val \<or> tainted_name (get_variable_name val) st
      then foldl (assign_target dump line val) st targets
      else st)"

text \<open>
  \<^verbatim>\<open>visit_Call\<close> before its \<^verbatim>\<open>generic_visit\<close>: one step of the loop over the arguments
  of a sink call, and the loop.
\<close>

definition call_arg :: "(pyast \<Rightarrow> string) \<Rightarrow> int \<Rightarrow> string \<Rightarrow> analyzer \<Rightarrow> pyast \<Rightarrow> analyzer" where
  "call_arg dump line sink_name st arg =
     (if is_taint_source arg then
        st\<lparr>taint_flows_found := taint_flows_found st
             @ [\<lparr>tf_source = get_node_repr dump arg, tf_sink = sink_name, tf_source_line = line,
                  tf_sink_line = line, tf_severity = ''critical'', tf_type = ''direct'',
                  tf_tainted_var = None\<rparr>]\<rparr>
      else if tainted_name (get_variable_name arg) st then
        st\<lparr>taint_flows_found := taint_flows_found st
             @ [\<lparr>tf_source = get_node_repr dump arg, tf_sink = sink_name,
                  tf_source_line = (case var_assignments st (the (get_variable_name arg)) of
                                      Some l \<Rightarrow> l | None \<Rightarrow> line),
                  tf_sink_line = line, tf_severity = ''critical'', tf_type = ''variable_flow'',
                  tf_tainted_var = get_variable_name arg\<rparr>]\<rparr>
      else st)"

definition visit_Call ::
  "(pyast \<Rightarrow> string) \<Rightarrow> int \<Rightarrow> pyast \<Rightarrow> pyast list \<Rightarrow> pyast list \<Rightarrow> analyzer \<Rightarrow> analyzer" where
  "visit_Call dump line func args kws st =
     (case is_taint_sink (Call line func args kws) of
        None \<Rightarrow> st
      | Some sink_name \<Rightarrow>
          if sink_name = [] then st
          else foldl (call_arg dump line sink_name)
                 (st\<lparr>taint_sinks := taint_sinks st
                       @ [\<lparr>sk_sink = sink_name, sk_line = line, sk_args = map (get_node_repr dump) args\<rparr>]\<rparr>)
                 args)"

text \<open>
  \<^verbatim>\<open>visit\<close>: the method of the node's class if the analyzer has one, and
  \<^verbatim>\<open>generic_visit\<close>, which visits the children in the order of the fields.
\<close>

fun taint_visit :: "(pyast \<Rightarrow> string) \<Rightarrow> pyast \<Rightarrow> analyzer \<Rightarrow> analyzer"
  and visit_all :: "(pyast \<Rightarrow> string) \<Rightarrow> pyast list \<Rightarrow> analyzer \<Rightarrow> analyzer" where
  "taint_visit dump (Name v) st = st"
| "taint_visit dump (Attribute v attr) st = taint_visit dump v st"
| "taint_visit dump (Subscript v slice) st = taint_visit dump slice (taint_visit dump v st)"
| "taint_visit dump (Call line func args kws) st =
     visit_all dump kws (visit_all dump args (taint_visit dump func (visit_Call dump line func args kws st)))"
| "taint_visit dump (BinOp left right) st = taint_visit dump right (taint_visit dump left st)"
| "taint_visit dump (Constant r) st = st"
| "taint_visit dump (Assign line targets val) st =
     taint_visit dump val (visit_all dump targets (visit_Assign dump line targets val st))"
| "taint_visit dump (Node children) st = visit_all dump children st"
| "visit_all dump [] st = st"
| "visit_all dump (n # ns) st = visit_all dump ns (taint_visit dump n st)"

fun taint_analyze :: "(pyast \<Rightarrow> string) \<Rightarrow> pyast option \<Rightarrow> taint_flow list" where
  "taint_analyze dump None = []"
| "taint_analyze dump (Some ast_tree) = taint_flows_found (taint_visit dump ast_tree new_analyzer)"

text \<open>
  What the theorems about the Python analyzer are stated with: the expressions built of
  names, attributes, constants, binary operations and nodes of other kinds around them
  (no call, no subscript, no assignment), the taint
  source \<^verbatim>\<open>sys.argv[k]\<close>, the program of an assignment followed by a call statement, the
  flow reported for a tainted argument (with a given source line, and with the line that
  the analyzer has recorded for the variable), and the key of a flow.
\<close>

fun plain :: "pyast \<Rightarrow> bool" where
  "plain (Name v) = True"
| "plain (Constant r) = True"
| "plain (Attribute v attr) = plain v"
| "plain (BinOp left right) = (plain left \<and> plain right)"
| "plain (Node children) = list_all plain children"
| "plain _ = False"

definition argv_source :: "string \<Rightarrow> pyast" where
  "argv_source k = Subscript (Attribute (Name ''sys'') ''argv'') (Constant k)"

definition assign_then_call :: "int \<Rightarrow> pyast \<Rightarrow> pyast \<Rightarrow> pyast \<Rightarrow> pyast" where
  "assign_then_call l1 target val call = Node [Assign l1 [target] val, Node [call]]"

definition variable_flow :: "(pyast \<Rightarrow> string) \<Rightarrow> string \<Rightarrow> int \<Rightarrow> int \<Rightarrow> pyast \<Rightarrow> taint_flow" where
  "variable_flow dump sink l1 l2 arg =
     \<lparr>tf_source = get_node_repr dump arg, tf_sink = sink, tf_source_line = l1, tf_sink_line = l2,
      tf_severity = ''critical'', tf_type = ''variable_flow'', tf_tainted_var = get_variable_name arg\<rparr>"


definition flow_key :: "taint_flow \<Rightarrow> int \<times> int \<times> string \<times> string" where
  "flow_key f =
     (tf_source_line f, tf_sink_line f,
      (case tf_tainted_var f of Some v \<Rightarrow> v | None \<Rightarrow> ''direct''), tf_sink f)"

definition no_dump :: "pyast \<Rightarrow> string" where
  "no_dump node = ''<ast>''"

definition argv_to_call_twice :: pyast where
  "argv_to_call_twice =
     assign_then_call 1 (Name ''x'') (argv_source ''1'')
       (Call 2 (Attribute (Name ''subprocess'') ''call'') [Name ''x'', Name ''x''] [])"



section \<open>Taint analysis of Go and Java code (engines/static/go_taint_analysis.py, java_taint_analysis.py)\<close>

text \<open>
  The two analyzers are one loop over the lines of the source text. They differ in three
  things only, which are the fields of \<open>language\<close> below: the patterns of the taint
  sources, the sink rules, and \<^verbatim>\<open>_extract_assigned_vars\<close>. The helpers come first:
  \<^verbatim>\<open>str.find\<close>, \<^verbatim>\<open>str.replace\<close>, \<^verbatim>\<open>str.split()\<close> without argument, \<^verbatim>\<open>str(n)\<close>, the
  classes \<^verbatim>\<open>\w\<close> and \<^verbatim>\<open>\s\<close>, and \<^verbatim>\<open>re.sub\<close> with an empty replacement for a pattern
  that starts with \<^verbatim>\<open>^\<close>.
\<close>

fun find_sub :: "string \<Rightarrow> string \<Rightarrow> nat option" where
  "find_sub sub [] = (if sub = [] then Some 0 else None)"
| "find_sub sub (c # cs) = (if startswith (c # cs) sub then Some 0 else map_option Suc (find_sub sub cs))"

fun replace_from :: "string \<Rightarrow> string \<Rightarrow> nat \<Rightarrow> string \<Rightarrow> string" where
  "replace_from old new skip [] = []"
| "replace_from old new skip (c # cs) =
     (if skip > 0 then replace_from old new (skip - 1) cs
      else if startswith (c # cs) old then new @ replace_from old new (length old - 1) cs
      else c # replace_from old new 0 cs)"

definition py_replace :: "string \<Rightarrow> string \<Rightarrow> string \<Rightarrow> string" where
  "py_replace s old new = replace_from old new 0 s"

fun split_ws_from :: "string \<Rightarrow> string \<Rightarrow> string list" where
  "split_ws_from cur [] = (if cur = [] then [] else [rev cur])"
| "split_ws_from cur (c # cs) =
     (if py_isspace c then (if cur = [] then split_ws_from [] cs else rev cur # split_ws_from [] cs)
      else split_ws_from (c # cur) cs)"

definition py_split_ws :: "string \<Rightarrow> string list" where
  "py_split_ws s = split_ws_from [] s"

definition digit_char :: "nat \<Rightarrow> char" where
  "digit_char d = ''0123456789'' ! d"

function str_nat :: "nat \<Rightarrow> string" where
  "str_nat n = (if n < 10 then [digit_char n] else str_nat (n div 10) @ [digit_char (n mod 10)])"
  by pat_completeness auto
termination
  by (relation "measure (\<lambda>n. n)") auto

definition py_str :: "int \<Rightarrow> string" where
  "py_str i = (if i < 0 then CHR ''-'' # str_nat (nat (- i)) else str_nat (nat i))"

definition is_word :: "char \<Rightarrow> bool" where
  "is_word c = (is_alpha c \<or> is_digit c \<or> c = CHR ''_''
      \<or> c \<in> set [CHR 0xAA, CHR 0xB2, CHR 0xB3, CHR 0xB5, CHR 0xB9, CHR 0xBA, CHR 0xBC, CHR 0xBD, CHR 0xBE]
      \<or> (0xC0 \<le> (of_char c :: nat) \<and> of_char c \<noteq> (0xD7 :: nat) \<and> of_char c \<noteq> (0xF7 :: nat)))"

definition star :: "(char \<Rightarrow> bool) \<Rightarrow> rx" where
  "star p = Alt (Plus p) Eps"

definition found :: "rx \<Rightarrow> string \<Rightarrow> bool" where
  "found r s = (re_search r s \<noteq> None)"

definition sub_prefix :: "rx \<Rightarrow> string \<Rightarrow> string" where
  "sub_prefix r s = (case match_at r [] s of None \<Rightarrow> s | Some m \<Rightarrow> drop (length (m_text m)) s)"

text \<open>
  \<^verbatim>\<open>_strip_comments\<close>: the inner loop on one line, which removes the block comments, and
  the loop over the lines, which then cuts a line comment.
\<close>

function strip_line :: "bool \<Rightarrow> string \<Rightarrow> string \<times> bool" where
  "strip_line in_block current =
     (if in_block then
        (case find_sub ''*/'' current of
           None \<Rightarrow> ([], True)
         | Some e \<Rightarrow> strip_line False (drop (e + 2) current))
      else
        (case find_sub ''/*'' current of
           None \<Rightarrow> (current, False)
         | Some s \<Rightarrow>
             (case find_sub ''*/'' (drop (s + 2) current) of
                None \<Rightarrow> (take s current, True)
              | Some e \<Rightarrow> strip_line False (take s current @ drop (s + 2 + e + 2) current))))"
  by pat_completeness auto
termination
proof (relation "measure (\<lambda>(in_block, current). length current)")
  have bound: "find_sub sub s = Some i \<Longrightarrow> i + length sub \<le> length s" for sub s i
  proof (induction s arbitrary: i)
    case Nil
    then show ?case by (simp split: if_splits)
  next
    case (Cons c cs)
    have "startswith t sub \<Longrightarrow> length sub \<le> length t" for t
      by (induction t sub rule: startswith.induct) simp_all
    with Cons show ?case by (fastforce split: if_splits)
  qed
  show "wf (measure (\<lambda>(in_block, current). length current))" by simp
  fix in_block :: bool and current :: string and e :: nat
  assume "find_sub ''*/'' current = Some e"
  from bound [OF this]
  show "((False, drop (e + 2) current), (in_block, current)) \<in> measure (\<lambda>(in_block, current). length current)"
    by simp
next
  have bound: "find_sub sub s = Some i \<Longrightarrow> i + length sub \<le> length s" for sub s i
  proof (induction s arbitrary: i)
    case Nil
    then show ?case by (simp split: if_splits)
  next
    case (Cons c cs)
    have "startswith t sub \<Longrightarrow> length sub \<le> length t" for t
      by (induction t sub rule: startswith.induct) simp_all
    with Cons show ?case by (fastforce split: if_splits)
  qed
  fix in_block :: bool and current :: string and s e :: nat
  assume "find_sub ''/*'' current = Some s" and "find_sub ''*/'' (drop (s + 2) current) = Some e"
  from bound [OF this(1)] bound [OF this(2)]
  show "((False, take s current @ drop (s + 2 + e + 2) current), (in_block, current))
          \<in> measure (\<lambda>(in_block, current). length current)"
    by simp
qed

fun strip_comments_from :: "bool \<Rightarrow> string list \<Rightarrow> string list" where
  "strip_comments_from in_block [] = []"
| "strip_comments_from in_block (line # lines) =
     (case strip_line in_block line of
        (current, in_block') \<Rightarrow> hd (py_split1 current ''//'') # strip_comments_from in_block' lines)"

definition strip_comments :: "string list \<Rightarrow> string list" where
  "strip_comments lines = strip_comments_from False lines"

text \<open>
  \<^verbatim>\<open>_extract_assigned_vars\<close> of the Go analyzer and of the Java analyzer. The pattern
  \<open>assign_rx\<close> is \<^verbatim>\<open>(?<![=!<>])=(?![=])\<close>.
\<close>

definition assign_rx :: rx where
  "assign_rx = Seq (NotAfter (\<lambda>c. c \<in> set ''=!<>'')) (Seq (lit ''='') (NotBefore (\<lambda>c. c = CHR ''='')))"

definition go_extract_assigned_vars :: "string \<Rightarrow> string list \<times> string option" where
  "go_extract_assigned_vars line =
     (case re_search (Alt (lit '':='') assign_rx) line of
        None \<Rightarrow> ([], None)
      | Some m \<Rightarrow>
          (let lhs = strip (take (m_start m) line);
               rhs = strip (drop (m_start m + length (m_text m)) line);
               lhs = sub_prefix (Seq (Alt (lit ''if'') (Alt (lit ''for'') (lit ''switch''))) (Plus py_isspace)) lhs;
               lhs = py_replace lhs ''range '' [];
               lhs = sub_prefix (Seq (lit ''var'') (Plus py_isspace)) lhs;
               vars_found = concat (map (\<lambda>part.
                   let part = strip part in
                   if part = [] then []
                   else (let var_name = hd (py_split_ws part) in if var_name = ''_'' then [] else [var_name]))
                 (py_split lhs '',''))
           in (vars_found, Some rhs)))"

definition java_extract_assigned_vars :: "string \<Rightarrow> string list \<times> string option" where
  "java_extract_assigned_vars line =
     (case re_search assign_rx line of
        None \<Rightarrow> ([], None)
      | Some m \<Rightarrow>
          (let lhs = strip (take (m_start m) line);
               rhs = strip (drop (m_start m + length (m_text m)) line);
               vars_found = concat (map (\<lambda>part.
                   let part = strip part in
                   if part = [] then []
                   else (let tokens = py_split_ws part;
                             var_name = (if tokens \<noteq> [] then last tokens else [])
                         in if var_name = ''_'' then [] else [var_name]))
                 (py_split lhs '',''))
           in (vars_found, Some rhs)))"

text \<open>
  \<^verbatim>\<open>_line_contains_var\<close> and \<^verbatim>\<open>_find_taint_origin\<close>. The dictionary of the tainted
  variables keeps the order in which the variables were first assigned, so it is an
  association list that is updated in place.
\<close>

definition line_contains_var :: "string \<Rightarrow> string \<Rightarrow> bool" where
  "line_contains_var text var_name =
     (var_name \<noteq> [] \<and>
      found (Seq (NotAfter (\<lambda>c. is_word c \<or> c = CHR ''.'')) (Seq (lit var_name) (NotBefore is_word))) text)"

record origin =
  o_source_line :: int
  o_source_code :: string

definition find_taint_origin :: "string \<Rightarrow> (string \<times> origin) list \<Rightarrow> origin option" where
  "find_taint_origin rhs tainted_vars =
     map_option snd (find (\<lambda>(var_name, origin). line_contains_var rhs var_name) tainted_vars)"

record sink_info =
  si_rule_id :: string
  si_rule_name :: string
  si_severity :: string

record language =
  taint_source_patterns :: "rx list"
  sink_rules :: "(rx \<times> sink_info) list"
  extract_assigned_vars :: "string \<Rightarrow> string list \<times> string option"

record line_flow =
  lf_source_line :: int
  lf_source_code :: string
  lf_sink_line :: int
  lf_sink_code :: string
  lf_rule_id :: string
  lf_rule_name :: string
  lf_severity :: string
  lf_line :: int
  lf_matched_text :: string
  lf_description :: string

type_synonym dedup_key = "int \<times> int \<times> string \<times> string"

text \<open>
  The state of the loop. Every flow is kept with the key under which the loop enters it
  into \<^verbatim>\<open>seen_flows\<close>; the analyzers return the flows without the keys.
\<close>

record loop_state =
  tainted_vars :: "(string \<times> origin) list"
  seen_flows :: "dedup_key set"
  keyed_flows :: "(dedup_key \<times> line_flow) list"

definition emit :: "dedup_key \<Rightarrow> line_flow \<Rightarrow> loop_state \<Rightarrow> loop_state" where
  "emit key flow st =
     (if key \<in> seen_flows st then st
      else st\<lparr>keyed_flows := keyed_flows st @ [(key, flow)], seen_flows := insert key (seen_flows st)\<rparr>)"

fun match_sink :: "(rx \<times> sink_info) list \<Rightarrow> string \<Rightarrow> (sink_info \<times> string) option" where
  "match_sink [] line = None"
| "match_sink ((pattern, info) # rules) line =
     (case re_search pattern line of
        Some m \<Rightarrow> Some (info, m_text m)
      | None \<Rightarrow> match_sink rules line)"

definition direct_flow :: "int \<Rightarrow> string \<Rightarrow> sink_info \<Rightarrow> string \<Rightarrow> line_flow" where
  "direct_flow i line matched_sink matched_text =
     \<lparr>lf_source_line = i, lf_source_code = line, lf_sink_line = i, lf_sink_code = line,
      lf_rule_id = si_rule_id matched_sink, lf_rule_name = si_rule_name matched_sink,
      lf_severity = si_severity matched_sink, lf_line = i,
      lf_matched_text = (if matched_text \<noteq> [] then matched_text else line),
      lf_description = ''Taint source on line '' @ py_str i @ '' flows to sink on line '' @ py_str i\<rparr>"

definition var_flow :: "int \<Rightarrow> string \<Rightarrow> sink_info \<Rightarrow> string \<Rightarrow> origin \<Rightarrow> line_flow" where
  "var_flow i line matched_sink matched_text origin =
     \<lparr>lf_source_line = o_source_line origin, lf_source_code = o_source_code origin, lf_sink_line = i,
      lf_sink_code = line, lf_rule_id = si_rule_id matched_sink, lf_rule_name = si_rule_name matched_sink,
      lf_severity = si_severity matched_sink, lf_line = i,
      lf_matched_text = (if matched_text \<noteq> [] then matched_text else line),
      lf_description = ''Taint data from line '' @ py_str (o_source_line origin)
         @ '' flows to sink at line '' @ py_str i\<rparr>"

definition var_step ::
  "int \<Rightarrow> string \<Rightarrow> sink_info \<Rightarrow> string \<Rightarrow> loop_state \<Rightarrow> string \<times> origin \<Rightarrow> loop_state" where
  "var_step i line matched_sink matched_text st entry =
     (case entry of (var_name, origin) \<Rightarrow>
        if \<not> line_contains_var line var_name then st
        else emit (o_source_line origin, i, var_name, si_rule_id matched_sink)
               (var_flow i line matched_sink matched_text origin) st)"

definition taint_assigned ::
  "language \<Rightarrow> int \<Rightarrow> string \<Rightarrow> (string \<times> origin) list \<Rightarrow> (string \<times> origin) list" where
  "taint_assigned lang i line tainted =
     (let sources_present = list_ex (\<lambda>p. found p line) (taint_source_patterns lang);
          (assigned_vars, rhs) = extract_assigned_vars lang line
      in if sources_present \<and> assigned_vars \<noteq> [] then
           foldl (\<lambda>t var_name. AList.update var_name \<lparr>o_source_line = i, o_source_code = line\<rparr> t)
                 tainted assigned_vars
         else if assigned_vars \<noteq> [] \<and> rhs \<noteq> None \<and> rhs \<noteq> Some [] then
           (case find_taint_origin (the rhs) tainted of
              None \<Rightarrow> tainted
            | Some origin \<Rightarrow> foldl (\<lambda>t var_name. AList.update var_name origin t) tainted assigned_vars)
         else tainted)"

definition line_step :: "language \<Rightarrow> loop_state \<Rightarrow> nat \<times> string \<Rightarrow> loop_state" where
  "line_step lang st numbered =
     (case numbered of (n, raw_line) \<Rightarrow>
        (let i = int n; line = strip raw_line in
         if line = [] then st
         else
           (let sources_present = list_ex (\<lambda>p. found p line) (taint_source_patterns lang);
                st = st\<lparr>tainted_vars := taint_assigned lang i line (tainted_vars st)\<rparr>
            in case match_sink (sink_rules lang) line of
                 None \<Rightarrow> st
               | Some (matched_sink, matched_text) \<Rightarrow>
                   foldl (var_step i line matched_sink matched_text)
                     (if sources_present
                      then emit (i, i, ''direct'', si_rule_id matched_sink)
                             (direct_flow i line matched_sink matched_text) st
                      else st)
                     (tainted_vars st))))"

definition line_loop :: "language \<Rightarrow> string list \<Rightarrow> (dedup_key \<times> line_flow) list" where
  "line_loop lang lines =
     keyed_flows (foldl (line_step lang) \<lparr>tainted_vars = [], seen_flows = {}, keyed_flows = []\<rparr>
                        (List.enumerate 1 lines))"

text \<open>
  The two analyzers. The source text is \<open>None\<close> when the file cannot be read, and the
  result is then empty.
\<close>

definition sink_rule :: "string \<Rightarrow> string \<Rightarrow> string \<Rightarrow> sink_info" where
  "sink_rule rid name sev = \<lparr>si_rule_id = rid, si_rule_name = name, si_severity = sev\<rparr>"

definition alts :: "string list \<Rightarrow> rx" where
  "alts ws = foldr (\<lambda>w r. Alt (lit w) r) (butlast ws) (lit (last ws))"

definition go_language :: language where
  "go_language =
     \<lparr>taint_source_patterns =
        map lit [''os.Args'', ''flag.String('', ''flag.Int('', ''flag.Bool('', ''http.Request.FormValue('',
                 ''http.Request.PostFormValue('', ''http.Request.Header.Get('', ''c.Query('', ''c.Param(''],
      sink_rules =
        [(lit ''exec.CommandContext('', sink_rule ''go_rce_exec_command'' ''Go RCE - exec.CommandContext'' ''critical''),
         (lit ''exec.Command('', sink_rule ''go_rce_exec_command'' ''Go RCE - exec.Command'' ''critical''),
         (lit ''exec.Run('', sink_rule ''go_rce_exec_command'' ''Go RCE - exec.Run'' ''critical''),
         (Seq (alts [''os'', ''syscall'']) (lit ''.Exec(''),
            sink_rule ''go_os_exec'' ''Go RCE - os/exec Usage'' ''critical''),
         (Seq (lit ''sql.DB.'') (Seq (alts [''Query'', ''Exec'']) (lit ''('')),
            sink_rule ''go_sql_injection'' ''Go SQL Injection - String Concatenation'' ''high''),
         (Seq (lit ''os.'') (Seq (alts [''OpenFile'', ''Create'', ''WriteFile'']) (lit ''('')),
            sink_rule ''go_file_write'' ''Go File Write Operation'' ''medium''),
         (lit ''net.Dial('', sink_rule ''go_network_dial'' ''Go Network - net.Dial()'' ''medium'')],
      extract_assigned_vars = go_extract_assigned_vars\<rparr>"

definition java_language :: language where
  "java_language =
     \<lparr>taint_source_patterns =
        [lit ''System.in'', Seq (lit ''args'') (Seq (star py_isspace) (lit ''['')),
         lit ''request.getParameter('', lit ''request.getHeader('', lit ''request.getQueryString('',
         lit ''request.getCookies('', lit ''session.getAttribute(''],
      sink_rules =
        [(lit ''Runtime.getRuntime().exec('',
            sink_rule ''java_rce_runtime_exec'' ''Java RCE - Runtime.exec()'' ''critical''),
         (Alt (Seq (lit ''new'') (Seq (Plus py_isspace) (lit ''ProcessBuilder(''))) (lit ''ProcessBuilder(''),
            sink_rule ''java_rce_processbuilder'' ''Java RCE - ProcessBuilder'' ''critical''),
         (Seq (alts [''Statement'', ''PreparedStatement''])
            (Seq (lit ''.execute'') (Seq (alts [''Query'', ''Update'', []]) (lit ''(''))),
            sink_rule ''java_sql_injection'' ''Java SQL Injection - String Concatenation'' ''high''),
         (Seq (alts [''FileWriter'', ''FileOutputStream'', ''PrintWriter'']) (lit ''(''),
            sink_rule ''java_file_operation'' ''Java File Operation'' ''medium''),
         (Alt (Seq (alts [''Socket'', ''URL'', ''HttpURLConnection'']) (Seq (star py_isspace) (lit ''('')))
              (Seq (lit ''.connect'') (Seq (star py_isspace) (lit ''(''))),
            sink_rule ''java_network_connection'' ''Java Network Connection'' ''medium''),
         (Seq (alts [''ObjectInputStream'', ''readObject'', ''readUnshared'']) (Seq (star py_isspace) (lit ''('')),
            sink_rule ''java_deserialization'' ''Java Deserialization Risk'' ''high'')],
      extract_assigned_vars = java_extract_assigned_vars\<rparr>"

definition analyze_source :: "language \<Rightarrow> string option \<Rightarrow> line_flow list" where
  "analyze_source lang source =
     (case source of
        None \<Rightarrow> []
      | Some source_code \<Rightarrow> map snd (line_loop lang (strip_comments (py_split source_code [CHR 0x0A]))))"

definition go_taint_analyze :: "string option \<Rightarrow> line_flow list" where
  "go_taint_analyze source = analyze_source go_language source"

definition java_taint_analyze :: "string option \<Rightarrow> line_flow list" where
  "java_taint_analyze source = analyze_source java_language source"

text \<open>
  The invariant of the loop: the keys of the flows found so far are pairwise different,
  they are all in \<^verbatim>\<open>seen_flows\<close>, and each agrees with its flow.
\<close>

definition keys_ok :: "loop_state \<Rightarrow> bool" where
  "keys_ok st \<longleftrightarrow> distinct (map fst (keyed_flows st)) \<and> set (map fst (keyed_flows st)) \<subseteq> seen_flows st
     \<and> (\<forall>(k, f) \<in> set (keyed_flows st). \<exists>v. k = (lf_source_line f, lf_sink_line f, v, lf_rule_id f))"


text \<open>
  Three Go programs: a command line argument that reaches \<^verbatim>\<open>exec.Command\<close> on a line
  that assigns nothing; the same with the command assigned to a variable; and two names
  of one argument on one sink line.
\<close>

definition nl :: string where
  "nl = [CHR 0x0A]"

definition go_plain_sink :: string where
  "go_plain_sink = ''userInput := os.Args[1]'' @ nl @ ''exec.Command(userInput).Run()''"

definition go_assigned_sink :: string where
  "go_assigned_sink = ''userInput := os.Args[1]'' @ nl @ ''cmd := exec.Command(userInput)''"

definition go_aliases :: string where
  "go_aliases = ''a := os.Args[1] // the argument'' @ nl @ ''b := a'' @ nl @ ''exec.Command(a, b).Run()''"

section \<open>Theorems\<close>

subsection \<open>Risk assessor\<close>

text \<open>
  C1. For all non-negative severity counts the risk assessor returns
  \<open>risk_score = min 100 (30 * critical + 15 * high + 5 * medium + low)\<close>; the level is
  \<open>critical\<close> from 80, \<open>high\<close> from 50, \<open>medium\<close> from 20 and \<open>low\<close> below; the score
  lies in \<open>[0, 100]\<close>; raising any single count never lowers the score; and the scores
  19/20, 49/50 and 79/80 (reached by 19, 20, 49, 50, 79 and 80 low findings) are
  classified low/medium, medium/high and high/critical.
\<close>

theorem risk_score_formula_levels_monotone:
  fixes c h m l :: int
  assumes "0 \<le> c" "0 \<le> h" "0 \<le> m" "0 \<le> l"
  shows "risk_score (calculate_risk_score c h m l) = min 100 (30 * c + 15 * h + 5 * m + 1 * l)
    \<and> risk_level (calculate_risk_score c h m l) =
           (if risk_score (calculate_risk_score c h m l) \<ge> 80 then ''critical''
            else if risk_score (calculate_risk_score c h m l) \<ge> 50 then ''high''
            else if risk_score (calculate_risk_score c h m l) \<ge> 20 then ''medium''
            else ''low'')
    \<and> 0 \<le> risk_score (calculate_risk_score c h m l)
    \<and> risk_score (calculate_risk_score c h m l) \<le> 100
    \<and> (\<forall>c'. c \<le> c' \<longrightarrow>
           risk_score (calculate_risk_score c h m l) \<le> risk_score (calculate_risk_score c' h m l))
    \<and> (\<forall>h'. h \<le> h' \<longrightarrow>
           risk_score (calculate_risk_score c h m l) \<le> risk_score (calculate_risk_score c h' m l))
    \<and> (\<forall>m'. m \<le> m' \<longrightarrow>
           risk_score (calculate_risk_score c h m l) \<le> risk_score (calculate_risk_score c h m' l))
    \<and> (\<forall>l'. l \<le> l' \<longrightarrow>
           risk_score (calculate_risk_score c h m l) \<le> risk_score (calculate_risk_score c h m l'))
    \<and> calculate_risk_score 0 0 0 19 = \<lparr>risk_score = 19, risk_level = ''low''\<rparr>
    \<and> calculate_risk_score 0 0 0 20 = \<lparr>risk_score = 20, risk_level = ''medium''\<rparr>
    \<and> calculate_risk_score 0 0 0 49 = \<lparr>risk_score = 49, risk_level = ''medium''\<rparr>
    \<and> calculate_risk_score 0 0 0 50 = \<lparr>risk_score = 50, risk_level = ''high''\<rparr>
    \<and> calculate_risk_score 0 0 0 79 = \<lparr>risk_score = 79, risk_level = ''high''\<rparr>
    \<and> calculate_risk_score 0 0 0 80 = \<lparr>risk_score = 80, risk_level = ''critical''\<rparr>"
  using assms by (simp add: calculate_risk_score_def score_consts Let_def min_def)

theorem risk_score_formula_levels_monotone_witness:
  "risk_score (calculate_risk_score 1 2 3 4) = 79
   \<and> risk_level (calculate_risk_score 1 2 3 4) = ''high''
   \<and> risk_score (calculate_risk_score 1 2 3 4) \<le> risk_score (calculate_risk_score 2 2 3 4)
   \<and> risk_score (calculate_risk_score 2 2 3 4) = 100"
proof -
  have nn: "(0::int) \<le> 1" "(0::int) \<le> 2" "(0::int) \<le> 3" "(0::int) \<le> 4" by simp_all
  have le: "(1::int) \<le> 2" by simp
  from risk_score_formula_levels_monotone [OF nn]
  have a: "risk_score (calculate_risk_score 1 2 3 4) = min 100 (30 * 1 + 15 * 2 + 5 * 3 + 1 * 4)"
    and b: "risk_level (calculate_risk_score 1 2 3 4) =
           (if risk_score (calculate_risk_score 1 2 3 4) \<ge> 80 then ''critical''
            else if risk_score (calculate_risk_score 1 2 3 4) \<ge> 50 then ''high''
            else if risk_score (calculate_risk_score 1 2 3 4) \<ge> 20 then ''medium''
            else ''low'')"
    and c: "\<forall>c'. 1 \<le> c' \<longrightarrow>
           risk_score (calculate_risk_score 1 2 3 4) \<le> risk_score (calculate_risk_score c' 2 3 4)"
    by blast+
  from c le have d: "risk_score (calculate_risk_score 1 2 3 4) \<le> risk_score (calculate_risk_score 2 2 3 4)"
    by blast
  have e: "risk_score (calculate_risk_score 2 2 3 4) = 100"
    by (simp add: calculate_risk_score_def score_consts Let_def)
  from a have a': "risk_score (calculate_risk_score 1 2 3 4) = 79" by simp
  from b a' have b': "risk_level (calculate_risk_score 1 2 3 4) = ''high''" by simp
  from a' b' d e show ?thesis by blast
qed

subsection \<open>Regular expressions\<close>

lemma bt_Seq_iff: "x \<in> set (bt (Seq a b) s) \<longleftrightarrow> (\<exists>s1 \<in> set (bt a s). x \<in> set (bt b s1))"
  by simp

lemma bt_rest_length:
  "(pre', rest', caps') \<in> set (bt r (pre, rest, caps)) \<Longrightarrow> length rest' \<le> length rest"
proof (induction r arbitrary: pre rest caps pre' rest' caps')
  case (Chr p)
  then show ?case by (auto split: list.splits if_splits)
next
  case (Plus p)
  then show ?case by auto
next
  case Eps
  then show ?case by simp
next
  case (Seq a b)
  from Seq.prems obtain s1 where s1: "s1 \<in> set (bt a (pre, rest, caps))"
    and x: "(pre', rest', caps') \<in> set (bt b s1)"
    unfolding bt_Seq_iff by blast
  obtain p1 r1 c1 where s1_eq: "s1 = (p1, r1, c1)" by (cases s1)
  from Seq.IH(1) s1 s1_eq have "length r1 \<le> length rest" by blast
  moreover from Seq.IH(2) x s1_eq have "length rest' \<le> length r1" by blast
  ultimately show ?case by simp
next
  case (Alt a b)
  then show ?case by auto
next
  case (Grp i r)
  then show ?case by auto
next
  case Bol
  then show ?case by (auto split: if_splits)
next
  case (NotAfter p)
  then show ?case by (auto split: list.splits if_splits)
next
  case (NotBefore p)
  then show ?case by (auto split: list.splits if_splits)
qed

lemma grp_chr_first:
  assumes "(pre', rest', caps') \<in> set (bt (Grp g (Seq (Chr P) r)) (pre, rest, caps))"
  shows "\<exists>c x. P c \<and> map_of caps' g = Some (c # x)"
proof -
  from assms obtain caps1 where inner: "(pre', rest', caps1) \<in> set (bt (Seq (Chr P) r) (pre, rest, caps))"
    and caps': "caps' = (g, take (length rest - length rest') rest) # caps1"
    by auto
  from inner obtain c cs where rest: "rest = c # cs" and pc: "P c"
    and tail: "(pre', rest', caps1) \<in> set (bt r (c # pre, cs, caps))"
    by (cases rest) (auto split: if_splits)
  from bt_rest_length [OF tail] have "length rest' \<le> length cs" .
  then have "take (length rest - length rest') rest = c # take (length cs - length rest') cs"
    by (simp add: rest Suc_diff_le)
  with caps' pc show ?thesis by auto
qed

lemma match_at_Some:
  "match_at r pre rest = Some m \<Longrightarrow> \<exists>pre' rest'. (pre', rest', m_groups m) \<in> set (bt r (pre, rest, []))"
  by (fastforce simp: match_at_def split: list.splits)

lemma finditer_from_match:
  "m \<in> set (finditer_from r k pre rest) \<Longrightarrow> \<exists>pre0 rest0. match_at r pre0 rest0 = Some m"
proof (induction rest arbitrary: k pre)
  case Nil
  show ?case
  proof (cases "match_at r pre []")
    case None
    then have "finditer_from r k pre [] = []" by simp
    with Nil show ?thesis by (simp only: list.set empty_iff)
  next
    case (Some m')
    then have "finditer_from r k pre [] = [m'] \<or> finditer_from r k pre [] = []" by simp
    with Nil have "m = m'" by (auto simp only: list.set empty_iff insert_iff)
    with Some show ?thesis by blast
  qed
next
  case (Cons c cs)
  show ?case
  proof (cases "k > 0")
    case True
    with Cons.prems have "m \<in> set (finditer_from r (k - 1) (c # pre) cs)" by simp
    then show ?thesis by (rule Cons.IH)
  next
    case False
    show ?thesis
    proof (cases "match_at r pre (c # cs)")
      case None
      with False Cons.prems have "m \<in> set (finditer_from r 0 (c # pre) cs)" by simp
      then show ?thesis by (rule Cons.IH)
    next
      case (Some m')
      with False Cons.prems have "m = m' \<or> m \<in> set (finditer_from r (length (m_text m') - 1) (c # pre) cs)"
        by simp
      then show ?thesis using Some Cons.IH by blast
    qed
  qed
qed

lemma re_finditer_groups:
  "m \<in> set (re_finditer r s) \<Longrightarrow> \<exists>pre rest pre' rest'. (pre', rest', m_groups m) \<in> set (bt r (pre, rest, []))"
  unfolding re_finditer_def by (blast dest: finditer_from_match match_at_Some)

lemma strip_backslash: "\<exists>t. strip (CHR 0x5C # x) = CHR 0x5C # t"
proof -
  have ns: "\<not> py_isspace (CHR 0x5C)" by (simp add: py_isspace_def)
  then have "dropWhile py_isspace (rev x @ [CHR 0x5C]) = dropWhile py_isspace (rev x) @ [CHR 0x5C]"
    by (simp add: dropWhile_append3)
  with ns show ?thesis by (simp add: strip_def)
qed

lemma py_int_backslash: "py_int (CHR 0x5C # x) = None"
proof -
  obtain t where "strip (CHR 0x5C # x) = CHR 0x5C # t" using strip_backslash by blast
  then show ?thesis by (simp add: py_int_def int_body_def is_digit_def)
qed

lemma ints_of_group_none:
  assumes "\<And>m. m \<in> set ms \<Longrightarrow> py_int (group m i) = None"
  shows "ints_of_group i ms = []"
  using assms by (induction ms) (simp_all add: ints_of_group_def)

subsection \<open>Pattern matcher\<close>

lemma py_slice_sublist: "\<exists>u v. xs = u @ py_slice xs a b @ v"
proof -
  have "xs = take a xs @ take (b - a) (drop a xs) @ drop (b - a) (drop a xs)"
    by (simp only: append_take_drop_id)
  then show ?thesis unfolding py_slice_def by blast
qed

lemma line_matches_line:
  assumes "m \<in> set (line_matches r lines k line spans)"
  shows "pm_line m = int k \<and> (\<exists>u v. line = u @ pm_matched_text m @ v)"
proof -
  from assms obtain s e where "pm_line m = int k" and "pm_matched_text m = py_slice line s e"
    unfolding line_matches_def by (auto split: prod.splits)
  with py_slice_sublist [of line s e] show ?thesis by simp
qed

lemma enumerate_mem: "(k, line) \<in> set (List.enumerate 1 lines) \<Longrightarrow>
   1 \<le> k \<and> k \<le> length lines \<and> lines ! (k - 1) = line"
  by (auto simp: in_set_enumerate_eq)

lemma rule_matches_line:
  assumes "m \<in> set (rule_matches compile finditer lines r)"
  shows "1 \<le> pm_line m \<and> pm_line m \<le> int (length lines)
         \<and> (\<exists>u v. lines ! (nat (pm_line m) - 1) = u @ pm_matched_text m @ v)"
proof -
  from assms obtain regex k line where
    kl: "(k, line) \<in> set (List.enumerate 1 lines)"
    and m: "m \<in> set (line_matches r lines k line (finditer regex line))"
    by (auto simp: rule_matches_def split: if_splits option.splits)
  from line_matches_line [OF m] enumerate_mem [OF kl] show ?thesis by auto
qed

lemma filter_line_matches:
  "filter (\<lambda>m. pm_line m = int k) (line_matches r lines j line spans)
     = (if j = k then line_matches r lines j line spans else [])"
  unfolding line_matches_def by (induction spans) (auto split: prod.splits)

lemma filter_concat_enumerate:
  "concat (map (\<lambda>(j, line). if j = a + n then f j line else []) (List.enumerate a lines))
     = (if n < length lines then f (a + n) (lines ! n) else [])"
proof (induction lines arbitrary: a n)
  case Nil
  then show ?case by simp
next
  case (Cons l ls)
  show ?case
  proof (cases n)
    case 0
    have "concat (map (\<lambda>(j, line). if j = a then f j line else []) (List.enumerate (Suc a) ls)) = []"
      by (auto simp: in_set_enumerate_eq)
    with 0 show ?thesis by simp
  next
    case (Suc n')
    with Cons.IH [of "Suc a" n'] show ?thesis by simp
  qed
qed

lemma filter_rule_lines:
  "filter (\<lambda>m. pm_line m = int (1 + n))
      (concat (map (\<lambda>(j, line). line_matches r lines j line (f line)) (List.enumerate 1 lines)))
     = (if n < length lines then line_matches r lines (1 + n) (lines ! n) (f (lines ! n)) else [])"
proof -
  have "filter (\<lambda>m. pm_line m = int (1 + n))
      (concat (map (\<lambda>(j, line). line_matches r lines j line (f line)) (List.enumerate 1 lines)))
    = concat (map (\<lambda>(j, line). if j = 1 + n then line_matches r lines j line (f line) else [])
               (List.enumerate 1 lines))"
    unfolding filter_concat map_map
    by (rule arg_cong [where f = concat], rule map_cong)
       (auto simp only: comp_def filter_line_matches split: prod.splits)
  then show ?thesis by (simp only: filter_concat_enumerate)
qed

lemma filter_rule_matches:
  assumes "n < length lines"
  shows "filter (\<lambda>m. pm_line m = int (1 + n)) (rule_matches compile finditer lines r)
     = line_matches r lines (1 + n) (lines ! n) (occurrences compile finditer r (lines ! n))"
proof (cases "rule_pattern r = []")
  case True
  then show ?thesis by (simp add: rule_matches_def occurrences_def line_matches_def)
next
  case False
  show ?thesis
  proof (cases "compile (rule_pattern r)")
    case None
    with False show ?thesis by (simp add: rule_matches_def occurrences_def line_matches_def)
  next
    case (Some regex)
    with False have "rule_matches compile finditer lines r
        = concat (map (\<lambda>(j, line). line_matches r lines j line (finditer regex line)) (List.enumerate 1 lines))"
      and "occurrences compile finditer r (lines ! n) = finditer regex (lines ! n)"
      by (simp_all add: rule_matches_def occurrences_def)
    with assms filter_rule_lines [of n r lines "finditer regex"] show ?thesis by simp
  qed
qed

lemma length_line_matches: "length (line_matches r lines k line spans) = length spans"
  by (simp add: line_matches_def)

lemma filter_all_matches:
  assumes "n < length lines"
  shows "filter (\<lambda>m. pm_line m = int (1 + n))
           (sort_key pm_line (concat (map (rule_matches compile finditer lines) rules)))
     = concat (map (\<lambda>r. line_matches r lines (1 + n) (lines ! n)
                            (occurrences compile finditer r (lines ! n))) rules)"
proof -
  have "filter (\<lambda>m. pm_line m = int (1 + n))
           (sort_key pm_line (concat (map (rule_matches compile finditer lines) rules)))
      = filter (\<lambda>m. pm_line m = int (1 + n)) (concat (map (rule_matches compile finditer lines) rules))"
    by (rule sort_key_stable)
  also have "\<dots> = concat (map (\<lambda>r. filter (\<lambda>m. pm_line m = int (1 + n))
                                   (rule_matches compile finditer lines r)) rules)"
    by (simp only: filter_concat map_map comp_def)
  also have "\<dots> = concat (map (\<lambda>r. line_matches r lines (1 + n) (lines ! n)
                            (occurrences compile finditer r (lines ! n))) rules)"
    by (simp only: filter_rule_matches [OF assms])
  finally show ?thesis .
qed

lemma length_concat_line_matches:
  "length (concat (map (\<lambda>r. line_matches r lines k line (f r)) rules))
     = sum_list (map (\<lambda>r. length (f r)) rules)"
  by (induction rules) (simp_all add: length_line_matches)

text \<open>
  C6. For every source text and every rule set, whatever the regular expression library
  does: the result of \<^verbatim>\<open>match_patterns\<close> is sorted by ascending line number; for a source
  text that is not empty, the entries reported on line \<open>n + 1\<close> are exactly one entry per
  occurrence of each rule's pattern on that line, rule after rule in the order of the rule
  set and occurrence after occurrence in the order of the line, so that their number is the
  sum of the numbers of occurrences (a line with \<open>k\<close> occurrences of a pattern gives \<open>k\<close>
  entries for it); every entry is reported on a line of the source, and its matched text is
  a contiguous part of that line. For an empty source text or an empty rule set the result
  is empty.
\<close>

theorem match_patterns_sorted_one_per_occurrence:
  "sorted (map pm_line (match_patterns compile finditer source_code rules))
   \<and> (source_code = [] \<or> rules = [] \<longrightarrow> match_patterns compile finditer source_code rules = [])
   \<and> (source_code \<noteq> [] \<longrightarrow>
        (\<forall>n < length (source_lines source_code).
           filter (\<lambda>m. pm_line m = int (1 + n)) (match_patterns compile finditer source_code rules)
             = concat (map (\<lambda>r. line_matches r (source_lines source_code) (1 + n)
                                  (source_lines source_code ! n)
                                  (occurrences compile finditer r (source_lines source_code ! n)))
                           rules)
           \<and> length (filter (\<lambda>m. pm_line m = int (1 + n))
                        (match_patterns compile finditer source_code rules))
               = sum_list (map (\<lambda>r. length (occurrences compile finditer r (source_lines source_code ! n)))
                               rules)))
   \<and> (\<forall>m \<in> set (match_patterns compile finditer source_code rules).
        1 \<le> pm_line m \<and> pm_line m \<le> int (length (source_lines source_code))
        \<and> (\<exists>u v. source_lines source_code ! (nat (pm_line m) - 1) = u @ pm_matched_text m @ v))"
proof (intro conjI impI allI ballI)
  show "sorted (map pm_line (match_patterns compile finditer source_code rules))"
    by (simp add: match_patterns_def)
next
  assume "source_code = [] \<or> rules = []"
  then show "match_patterns compile finditer source_code rules = []"
    by (simp add: match_patterns_def)
next
  fix n assume src: "source_code \<noteq> []" and n: "n < length (source_lines source_code)"
  let ?lines = "source_lines source_code"
  have eq: "filter (\<lambda>m. pm_line m = int (1 + n)) (match_patterns compile finditer source_code rules)
             = concat (map (\<lambda>r. line_matches r ?lines (1 + n) (?lines ! n)
                                  (occurrences compile finditer r (?lines ! n))) rules)"
  proof (cases "rules = []")
    case True
    then show ?thesis by (simp add: match_patterns_def)
  next
    case False
    with src have "match_patterns compile finditer source_code rules
        = sort_key pm_line (concat (map (rule_matches compile finditer ?lines) rules))"
      by (simp add: match_patterns_def)
    then show ?thesis by (simp only: filter_all_matches [OF n])
  qed
  then show "filter (\<lambda>m. pm_line m = int (1 + n)) (match_patterns compile finditer source_code rules)
             = concat (map (\<lambda>r. line_matches r ?lines (1 + n) (?lines ! n)
                                  (occurrences compile finditer r (?lines ! n))) rules)" .
  show "length (filter (\<lambda>m. pm_line m = int (1 + n))
                        (match_patterns compile finditer source_code rules))
               = sum_list (map (\<lambda>r. length (occurrences compile finditer r (?lines ! n))) rules)"
    by (simp only: eq length_concat_line_matches)
next
  fix m assume m: "m \<in> set (match_patterns compile finditer source_code rules)"
  then obtain r where "m \<in> set (rule_matches compile finditer (source_lines source_code) r)"
    by (auto simp: match_patterns_def split: if_splits)
  from rule_matches_line [OF this]
  show "1 \<le> pm_line m" and "pm_line m \<le> int (length (source_lines source_code))"
    and "\<exists>u v. source_lines source_code ! (nat (pm_line m) - 1) = u @ pm_matched_text m @ v"
    by blast+
qed

lemma sample_lines:
  "source_lines sample_source = [''system(a); system(b)'', ''x = eval(eval(y))'', ''system(c)'']"
  by (simp add: source_lines_def sample_source_def py_split_def)

lemma sample_result:
  "map (\<lambda>m. (pm_line m, pm_rule_id m, pm_col_offset m, pm_matched_text m))
       (match_patterns literal_compile span_finditer sample_source sample_rules)
   = [(1, ''rce_system'', 0, ''system''), (1, ''rce_system'', 11, ''system''),
      (2, ''webshell_eval'', 4, ''eval''), (2, ''webshell_eval'', 9, ''eval''),
      (3, ''rce_system'', 0, ''system'')]"
  by code_simp

theorem match_patterns_sorted_one_per_occurrence_witness:
  "sample_source \<noteq> [] \<and> (1::nat) < length (source_lines sample_source)
   \<and> sorted (map pm_line (match_patterns literal_compile span_finditer sample_source sample_rules))
   \<and> length (filter (\<lambda>m. pm_line m = 2)
                (match_patterns literal_compile span_finditer sample_source sample_rules)) = 2
   \<and> map pm_matched_text (match_patterns literal_compile span_finditer sample_source sample_rules)
       = [''system'', ''system'', ''eval'', ''eval'', ''system'']"
proof -
  have src: "sample_source \<noteq> []" by (simp add: sample_source_def)
  have n: "(1::nat) < length (source_lines sample_source)" by (simp add: sample_lines)
  from match_patterns_sorted_one_per_occurrence
         [of literal_compile span_finditer sample_source sample_rules] src n
  have s: "sorted (map pm_line (match_patterns literal_compile span_finditer sample_source sample_rules))"
    and l: "length (filter (\<lambda>m. pm_line m = int (1 + 1))
                (match_patterns literal_compile span_finditer sample_source sample_rules))
            = sum_list (map (\<lambda>r. length (occurrences literal_compile span_finditer r
                                              (source_lines sample_source ! 1))) sample_rules)"
    by blast+
  have "sum_list (map (\<lambda>r. length (occurrences literal_compile span_finditer r
                                              (source_lines sample_source ! 1))) sample_rules) = 2"
    unfolding sample_lines by code_simp
  with l have l2: "length (filter (\<lambda>m. pm_line m = 2)
                (match_patterns literal_compile span_finditer sample_source sample_rules)) = 2"
    by simp
  have t: "map pm_matched_text (match_patterns literal_compile span_finditer sample_source sample_rules)
       = [''system'', ''system'', ''eval'', ''eval'', ''system'']"
    by code_simp
  from src n s l2 t show ?thesis by blast
qed

subsection \<open>Threat identifier\<close>

lemma new_threat_cases:
  "t \<in> set (new_threat ty sev d ev ls) \<Longrightarrow>
     threat_type t = ty \<and> threat_severity t = sev \<and> threat_evidence t = ev \<and> ev \<noteq> []
     \<and> threat_line_numbers t = sorted_set (filter (\<lambda>l. 0 < l) ls)"
  by (auto simp: new_threat_def split: if_splits)

lemma new_threat_keeps_evidence:
  "e \<in> set ev \<Longrightarrow>
     \<exists>t \<in> set (new_threat ty sev d ev ls). threat_type t = ty \<and> e \<in> set (threat_evidence t)"
  by (cases ev) (auto simp: new_threat_def)

lemma new_threat_types:
  "map threat_type (new_threat ty sev d ev ls) = map fst (filter snd [(ty, ev \<noteq> [])])"
  by (simp add: new_threat_def)

lemma lines_EvMatch: "concat (map (evidence_lines \<circ> EvMatch) ms) = map pm_line ms"
  by (induction ms) simp_all

lemma lines_EvFlow: "concat (map (evidence_lines \<circ> EvFlow) fs) = map tf_sink_line fs"
  by (induction fs) simp_all

lemma lines_EvActivity:
  "concat (map (evidence_lines \<circ> EvActivity) acts) = concat (map activity_lines acts)"
  by (induction acts) simp_all

lemma lines_EvFileOp:
  "concat (map (evidence_lines \<circ> EvFileOp) ops) = concat (map fo_line_numbers ops)"
  by (induction ops) simp_all

lemma lines_EvFuzz:
  "concat (map (evidence_lines \<circ> EvFuzz) rs) = concat (map fz_line_numbers rs)"
  by (induction rs) simp_all

lemma lines_EvMemory:
  "concat (map (evidence_lines \<circ> EvMemory) fs) = concat (map mf_line_numbers fs)"
  by (induction fs) simp_all

lemma lines_rce_syscalls:
  "concat (map evidence_lines (concat (map rce_syscall_evidence ss))) = concat (map rce_syscall_lines ss)"
proof (induction ss)
  case Nil
  show ?case by simp
next
  case (Cons s ss)
  then show ?case by (cases s) simp_all
qed

lemma lines_network_syscalls:
  "concat (map evidence_lines (concat (map network_syscall_evidence ss)))
     = concat (map network_syscall_lines ss)"
proof (induction ss)
  case Nil
  show ?case by simp
next
  case (Cons s ss)
  then show ?case by (cases s) simp_all
qed

lemmas evidence_lines_simps =
  lines_EvMatch lines_EvFlow lines_EvActivity lines_EvFileOp lines_EvFuzz lines_EvMemory
  lines_rce_syscalls lines_network_syscalls

lemma rce_ok: "t \<in> set (rce_threat a) \<Longrightarrow> threat_ok t"
  unfolding rce_threat_def Let_def threat_ok_def
  by (drule new_threat_cases) (simp add: evidence_lines_simps)

lemma cmd_ok: "t \<in> set (cmd_injection_threat a) \<Longrightarrow> threat_ok t"
  unfolding cmd_injection_threat_def Let_def threat_ok_def
  by (drule new_threat_cases) (simp add: evidence_lines_simps)

lemma pattern_ok: "t \<in> set (pattern_threat tag ty sev d a) \<Longrightarrow> threat_ok t"
  unfolding pattern_threat_def Let_def threat_ok_def
  by (drule new_threat_cases) (simp add: evidence_lines_simps)

lemma network_ok: "t \<in> set (network_threat a) \<Longrightarrow> threat_ok t"
  unfolding network_threat_def Let_def threat_ok_def
  by (drule new_threat_cases) (simp add: evidence_lines_simps)

lemma sensitive_ok: "t \<in> set (sensitive_file_threat a) \<Longrightarrow> threat_ok t"
  unfolding sensitive_file_threat_def Let_def threat_ok_def
  by (drule new_threat_cases) (simp add: evidence_lines_simps)

lemma crash_ok: "t \<in> set (crash_threat a) \<Longrightarrow> threat_ok t"
  unfolding crash_threat_def Let_def threat_ok_def
  by (drule new_threat_cases) (simp add: evidence_lines_simps)

lemma memory_ok: "t \<in> set (memory_threat a) \<Longrightarrow> threat_ok t"
  unfolding memory_threat_def Let_def threat_ok_def
  by (drule new_threat_cases) (simp add: evidence_lines_simps)

lemma identify_threats_ok: "t \<in> set (identify_threats a) \<Longrightarrow> threat_ok t"
  unfolding identify_threats_def
  by (auto dest: rce_ok cmd_ok pattern_ok network_ok sensitive_ok crash_ok memory_ok)

lemma sorted_set_props: "sorted (sorted_set xs) \<and> distinct (sorted_set xs) \<and> set (sorted_set xs) = set xs"
  by (simp add: sorted_set_def)

lemma sorted_set_eq: "sorted_set xs = sorted_list_of_set (set xs)"
  by (simp add: sorted_set_def sorted_list_of_set_sort_remdups)


lemma rce_syscall_evidence_case:
  "rce_syscall_evidence s =
     (case s of
        SyscallDict repr \<Rightarrow>
          if py_in ''os.system'' repr \<or> py_in ''subprocess'' repr then [EvSyscall (SyscallDict repr)] else []
      | SyscallStr l \<Rightarrow> if py_in ''os.system'' l \<or> py_in ''subprocess'' l then [EvLogEntry l] else []
      | SyscallOther \<Rightarrow> [])"
  by (cases s) simp_all

lemma network_syscall_evidence_case:
  "network_syscall_evidence s =
     (case s of SyscallStr l \<Rightarrow> if py_in ''[ALERT] NETWORK:'' l then [EvLine l] else [] | _ \<Rightarrow> [])"
  by (cases s) simp_all

lemma summary_new_threat:
  "map summary (new_threat ty sev d ev ls) = (if ev = [] then [] else [(ty, ev)])"
  by (simp add: new_threat_def summary_def)

lemma rce_threat_evidence:
  "map summary (rce_threat a) =
     (if category_evidence a ''RCE'' = [] then [] else [(''RCE'', category_evidence a ''RCE'')])"
  unfolding rce_threat_def Let_def summary_new_threat
  by (simp add: category_evidence_def rce_syscall_evidence_case [abs_def])

lemma cmd_injection_threat_evidence:
  "map summary (cmd_injection_threat a) =
     (if category_evidence a ''Command Injection'' = [] then []
      else [(''Command Injection'', category_evidence a ''Command Injection'')])"
  unfolding cmd_injection_threat_def Let_def summary_new_threat
  by (simp add: category_evidence_def)

lemma network_threat_evidence:
  "map summary (network_threat a) =
     (if category_evidence a ''Network Exfiltration'' = [] then []
      else [(''Network Exfiltration'', category_evidence a ''Network Exfiltration'')])"
  unfolding network_threat_def Let_def summary_new_threat
  by (simp add: category_evidence_def matches_with_def network_syscall_evidence_case [abs_def])

lemma webshell_threat_evidence:
  "map summary (pattern_threat ''webshell_'' ''WebShell'' sev d a) =
     (if category_evidence a ''WebShell'' = [] then [] else [(''WebShell'', category_evidence a ''WebShell'')])"
  unfolding pattern_threat_def Let_def summary_new_threat
  by (simp add: category_evidence_def matches_with_def)

lemma backdoor_threat_evidence:
  "map summary (pattern_threat ''backdoor_'' ''Backdoor'' sev d a) =
     (if category_evidence a ''Backdoor'' = [] then [] else [(''Backdoor'', category_evidence a ''Backdoor'')])"
  unfolding pattern_threat_def Let_def summary_new_threat
  by (simp add: category_evidence_def matches_with_def)

lemma sql_threat_evidence:
  "map summary (pattern_threat ''sql_injection'' ''SQL Injection'' sev d a) =
     (if category_evidence a ''SQL Injection'' = [] then []
      else [(''SQL Injection'', category_evidence a ''SQL Injection'')])"
  unfolding pattern_threat_def Let_def summary_new_threat
  by (simp add: category_evidence_def matches_with_def)

lemma file_threat_evidence:
  "map summary (pattern_threat ''file_'' ''File Operation Risk'' sev d a) =
     (if category_evidence a ''File Operation Risk'' = [] then []
      else [(''File Operation Risk'', category_evidence a ''File Operation Risk'')])"
  unfolding pattern_threat_def Let_def summary_new_threat
  by (simp add: category_evidence_def matches_with_def)

lemma sensitive_threat_evidence:
  "map summary (sensitive_file_threat a) =
     (if category_evidence a ''Sensitive File Access'' = [] then []
      else [(''Sensitive File Access'', category_evidence a ''Sensitive File Access'')])"
  unfolding sensitive_file_threat_def Let_def summary_new_threat
  by (simp add: category_evidence_def)

lemma crash_threat_evidence:
  "map summary (crash_threat a) =
     (if category_evidence a ''Runtime Vulnerability'' = [] then []
      else [(''Runtime Vulnerability'', category_evidence a ''Runtime Vulnerability'')])"
  unfolding crash_threat_def Let_def summary_new_threat
  by (simp add: category_evidence_def)

lemma memory_threat_evidence:
  "map summary (memory_threat a) =
     (if category_evidence a ''Memory Injection'' = [] then []
      else [(''Memory Injection'', category_evidence a ''Memory Injection'')])"
  unfolding memory_threat_def Let_def summary_new_threat
  by (simp add: category_evidence_def)

lemma identify_threats_evidence:
  "map summary (identify_threats a) = concat (map (category_entry a) category_names)"
  unfolding identify_threats_def map_append rce_threat_evidence cmd_injection_threat_evidence
    network_threat_evidence webshell_threat_evidence backdoor_threat_evidence sql_threat_evidence
    file_threat_evidence sensitive_threat_evidence crash_threat_evidence memory_threat_evidence
  by (simp only: category_names_def category_entry_def list.map concat.simps append_Nil2 append_assoc)

lemma fst_category_entries:
  "map fst (concat (map (category_entry a) cs)) = filter (\<lambda>c. category_evidence a c \<noteq> []) cs"
  by (induction cs) (simp_all add: category_entry_def)

lemma snd_category_entries:
  "p \<in> set (concat (map (category_entry a) cs)) \<Longrightarrow> snd p = category_evidence a (fst p)"
  by (auto simp: category_entry_def split: if_splits)

lemma identify_threats_types:
  "map threat_type (identify_threats a) = filter (\<lambda>c. category_evidence a c \<noteq> []) category_names"
proof -
  have "map threat_type (identify_threats a) = map fst (map summary (identify_threats a))"
    by (simp add: summary_def comp_def)
  then show ?thesis by (simp only: identify_threats_evidence fst_category_entries)
qed

lemma identify_threats_category_evidence:
  assumes "t \<in> set (identify_threats a)"
  shows "threat_evidence t = category_evidence a (threat_type t)"
proof -
  from assms have "summary t \<in> set (map summary (identify_threats a))" by simp
  then have "summary t \<in> set (concat (map (category_entry a) category_names))"
    by (simp only: identify_threats_evidence)
  from snd_category_entries [OF this] show ?thesis by (simp add: summary_def)
qed



lemma identify_bundle_mixed:
  "map (\<lambda>t. (threat_type t, threat_evidence t, threat_line_numbers t)) (identify_threats bundle_mixed) =
     [(''RCE'', [EvMatch (rce_match 7), EvFlow (argv_flow 7)], [7]),
      (''Command Injection'', [EvFlow (argv_flow 7)], [7]),
      (''WebShell'', [EvMatch (webshell_match 0)], []),
      (''Network Exfiltration'', [EvLine ''[ALERT] NETWORK: connect | stack=/app/t.py:12''], [12]),
      (''Sensitive File Access'', [EvFileOp (sensitive_op [-3, 0, 9])], [9])]"
  by code_simp








text \<open>
  C10. Every line number of every threat returned by the threat identifier is strictly
  positive, and every evidence entry of every category is kept whatever its line numbers
  are: it is in the evidence of the threat of its category, each of its strictly positive
  line numbers is a line number of that threat, and none of its line numbers that are
  zero or negative is.
\<close>

theorem threat_lines_strictly_positive:
  "(\<forall>t \<in> set (identify_threats a). \<forall>l \<in> set (threat_line_numbers t). 0 < l)
   \<and> (\<forall>c \<in> set category_names. \<forall>e \<in> set (category_evidence a c).
        \<exists>t \<in> set (identify_threats a).
           threat_type t = c \<and> e \<in> set (threat_evidence t)
           \<and> (\<forall>l \<in> set (evidence_lines e).
                 (0 < l \<longrightarrow> l \<in> set (threat_line_numbers t))
                 \<and> (l \<le> 0 \<longrightarrow> l \<notin> set (threat_line_numbers t))))"
proof (intro conjI ballI)
  fix t l assume "t \<in> set (identify_threats a)" and l: "l \<in> set (threat_line_numbers t)"
  then have "threat_ok t" by (simp add: identify_threats_ok)
  with l show "0 < l" by (auto simp: threat_ok_def sorted_set_props)
next
  fix c e assume c: "c \<in> set category_names" and e: "e \<in> set (category_evidence a c)"
  then have "c \<in> set (filter (\<lambda>c. category_evidence a c \<noteq> []) category_names)" by auto
  then have "c \<in> set (map threat_type (identify_threats a))"
    by (simp only: identify_threats_types)
  then obtain t where t: "t \<in> set (identify_threats a)" and ty: "threat_type t = c" by auto
  from identify_threats_category_evidence [OF t] ty e have ev: "e \<in> set (threat_evidence t)" by simp
  from t have "threat_ok t" by (rule identify_threats_ok)
  then have "set (threat_line_numbers t)
      = {l \<in> (\<Union>e \<in> set (threat_evidence t). set (evidence_lines e)). 0 < l}"
    by (auto simp: threat_ok_def sorted_set_props)
  with ev have "\<forall>l \<in> set (evidence_lines e).
                 (0 < l \<longrightarrow> l \<in> set (threat_line_numbers t))
                 \<and> (l \<le> 0 \<longrightarrow> l \<notin> set (threat_line_numbers t))"
    by auto
  with t ty ev show "\<exists>t \<in> set (identify_threats a).
           threat_type t = c \<and> e \<in> set (threat_evidence t)
           \<and> (\<forall>l \<in> set (evidence_lines e).
                 (0 < l \<longrightarrow> l \<in> set (threat_line_numbers t))
                 \<and> (l \<le> 0 \<longrightarrow> l \<notin> set (threat_line_numbers t)))"
    by blast
qed

theorem threat_lines_strictly_positive_witness:
  "''WebShell'' \<in> set category_names
   \<and> EvMatch (webshell_match 0) \<in> set (category_evidence bundle_mixed ''WebShell'')
   \<and> EvFileOp (sensitive_op [-3, 0, 9]) \<in> set (category_evidence bundle_mixed ''Sensitive File Access'')
   \<and> (\<exists>t \<in> set (identify_threats bundle_mixed).
         threat_type t = ''WebShell'' \<and> EvMatch (webshell_match 0) \<in> set (threat_evidence t)
         \<and> 0 \<notin> set (threat_line_numbers t))
   \<and> (\<exists>t \<in> set (identify_threats bundle_mixed).
         threat_type t = ''Sensitive File Access''
         \<and> EvFileOp (sensitive_op [-3, 0, 9]) \<in> set (threat_evidence t)
         \<and> 9 \<in> set (threat_line_numbers t) \<and> -3 \<notin> set (threat_line_numbers t)
         \<and> 0 \<notin> set (threat_line_numbers t))"
proof -
  have c1: "''WebShell'' \<in> set category_names"
    and c2: "''Sensitive File Access'' \<in> set category_names"
    by (simp_all add: category_names_def)
  have e1: "EvMatch (webshell_match 0) \<in> set (category_evidence bundle_mixed ''WebShell'')"
    by code_simp
  have e2: "EvFileOp (sensitive_op [-3, 0, 9]) \<in> set (category_evidence bundle_mixed ''Sensitive File Access'')"
    by code_simp
  have l1: "(0::int) \<in> set (evidence_lines (EvMatch (webshell_match 0)))"
    by (simp add: webshell_match_def)
  have l2: "set (evidence_lines (EvFileOp (sensitive_op [-3, 0, 9]))) = {-3, 0, 9}"
    by (auto simp: sensitive_op_def)
  from threat_lines_strictly_positive [of bundle_mixed] c1 e1
  obtain t1 where t1: "t1 \<in> set (identify_threats bundle_mixed)" "threat_type t1 = ''WebShell''"
      "EvMatch (webshell_match 0) \<in> set (threat_evidence t1)"
      "\<forall>l \<in> set (evidence_lines (EvMatch (webshell_match 0))).
          (0 < l \<longrightarrow> l \<in> set (threat_line_numbers t1)) \<and> (l \<le> 0 \<longrightarrow> l \<notin> set (threat_line_numbers t1))"
    by blast
  with l1 have w: "\<exists>t \<in> set (identify_threats bundle_mixed).
         threat_type t = ''WebShell'' \<and> EvMatch (webshell_match 0) \<in> set (threat_evidence t)
         \<and> 0 \<notin> set (threat_line_numbers t)"
    by auto
  from threat_lines_strictly_positive [of bundle_mixed] c2 e2
  obtain t2 where t2: "t2 \<in> set (identify_threats bundle_mixed)"
      "threat_type t2 = ''Sensitive File Access''"
      "EvFileOp (sensitive_op [-3, 0, 9]) \<in> set (threat_evidence t2)"
      "\<forall>l \<in> set (evidence_lines (EvFileOp (sensitive_op [-3, 0, 9]))).
          (0 < l \<longrightarrow> l \<in> set (threat_line_numbers t2)) \<and> (l \<le> 0 \<longrightarrow> l \<notin> set (threat_line_numbers t2))"
    by blast
  with l2 have f: "\<exists>t \<in> set (identify_threats bundle_mixed).
         threat_type t = ''Sensitive File Access''
         \<and> EvFileOp (sensitive_op [-3, 0, 9]) \<in> set (threat_evidence t)
         \<and> 9 \<in> set (threat_line_numbers t) \<and> -3 \<notin> set (threat_line_numbers t)
         \<and> 0 \<notin> set (threat_line_numbers t)"
    by auto
  from c1 e1 e2 w f show ?thesis by blast
qed

subsection \<open>Fuzzer\<close>

lemma randint_range:
  assumes "a \<le> b"
  shows "a \<le> fst (randint a b g) \<and> fst (randint a b g) \<le> b"
proof -
  have pos: "0 < b - a + 1" using assms by simp
  have ge: "0 \<le> int (g 0) mod (b - a + 1)" using pos by (rule pos_mod_sign)
  have lt: "int (g 0) mod (b - a + 1) < b - a + 1" using pos by (rule pos_mod_bound)
  have "fst (randint a b g) = a + int (g 0) mod (b - a + 1)"
    by (simp add: randint_def next_draw_def)
  with ge lt show ?thesis by linarith
qed

lemma all_chars_nonempty: "all_chars \<noteq> []"
  by (simp add: all_chars_def ascii_letters_def)

lemma choice_in: "xs \<noteq> [] \<Longrightarrow> fst (choice xs g) \<in> set xs"
  by (simp add: choice_def next_draw_def)

lemma choices_shape: "length (fst (choices n g)) = n \<and> set (fst (choices n g)) \<subseteq> set all_chars"
proof (induction n arbitrary: g)
  case 0
  show ?case by simp
next
  case (Suc n)
  obtain c g' where c: "choice all_chars g = (c, g')" by (cases "choice all_chars g")
  obtain cs g'' where cs: "choices n g' = (cs, g'')" by (cases "choices n g'")
  from c have "c \<in> set all_chars" using choice_in [OF all_chars_nonempty, of g] by simp
  moreover from Suc [of g'] cs have "length cs = n" "set cs \<subseteq> set all_chars" by simp_all
  ultimately show ?case by (simp add: c cs)
qed

lemma generate_random_string_shape:
  assumes "0 \<le> lo" "lo \<le> hi"
  shows "lo \<le> int (length (fst (generate_random_string lo hi g)))
       \<and> int (length (fst (generate_random_string lo hi g))) \<le> hi
       \<and> set (fst (generate_random_string lo hi g)) \<subseteq> set all_chars"
proof -
  obtain len g' where r: "randint lo hi g = (len, g')" by (cases "randint lo hi g")
  from randint_range [OF assms(2), of g] r have "lo \<le> len" "len \<le> hi" by simp_all
  with assms(1) choices_shape [of "nat len" g'] show ?thesis
    by (simp add: generate_random_string_def r)
qed

lemma random_cases_shape:
  "length (fst (random_cases n g)) = n \<and> list_all fuzz_string_ok (fst (random_cases n g))"
proof (induction n arbitrary: g)
  case 0
  show ?case by simp
next
  case (Suc n)
  obtain s g' where s: "generate_random_string 1 50 g = (s, g')" by (cases "generate_random_string 1 50 g")
  obtain ss g'' where ss: "random_cases n g' = (ss, g'')" by (cases "random_cases n g'")
  from generate_random_string_shape [of 1 50 g] s have "fuzz_string_ok s"
    by (simp add: fuzz_string_ok_def)
  moreover from Suc [of g'] ss have "length ss = n" "list_all fuzz_string_ok ss" by simp_all
  ultimately show ?case by (simp add: s ss)
qed

lemma length_injection_patterns: "length injection_patterns = 9"
  by (simp add: injection_patterns_def)

text \<open>
  C7. For every requested test count \<open>N \<ge> 0\<close> and every state of the random generator,
  the fuzzer's test cases are \<open>N\<close> random strings, each of 1 to 100 characters (in fact
  at most 50) drawn from the letters, the digits and the shell metacharacters, followed by
  the first \<open>min N 9\<close> entries of the fixed catalogue of injection payloads; they are at
  most \<open>2 * N\<close>, and \<^verbatim>\<open>fuzz_execution\<close> returns exactly one result per test case.
\<close>

theorem fuzz_cases_count_and_shape:
  assumes "0 \<le> N"
  shows "\<exists>rs. fst (generate_fuzz_cases N g) = rs @ take (nat N) injection_patterns
           \<and> int (length rs) = N
           \<and> list_all fuzz_string_ok rs
           \<and> int (length (fst (generate_fuzz_cases N g))) \<le> 2 * N
           \<and> length (fuzz_execution run net N g) = length (fst (generate_fuzz_cases N g))"
proof -
  obtain rs g' where rs: "random_cases (nat N) g = (rs, g')" by (cases "random_cases (nat N) g")
  from random_cases_shape [of "nat N" g] rs have len: "length rs = nat N" and ok: "list_all fuzz_string_ok rs"
    by simp_all
  have inj: "slice_to injection_patterns (min N (int (length injection_patterns))) = take (nat N) injection_patterns"
    using assms by (simp add: slice_to_def length_injection_patterns min_def)
  have "length (rs @ take (nat N) injection_patterns) \<le> nat (N * 2)"
    using assms len by (simp add: length_injection_patterns)
  then have "take (nat (N * 2)) (rs @ take (nat N) injection_patterns) = rs @ take (nat N) injection_patterns"
    by (rule take_all)
  then have sl: "slice_to (rs @ take (nat N) injection_patterns) (N * 2) = rs @ take (nat N) injection_patterns"
    using assms by (simp only: slice_to_def) simp
  have cases_eq: "fst (generate_fuzz_cases N g) = rs @ take (nat N) injection_patterns"
    by (simp add: generate_fuzz_cases_def rs inj sl)
  have "int (length (fst (generate_fuzz_cases N g))) \<le> 2 * N"
    using assms len by (simp add: cases_eq length_injection_patterns)
  moreover have "length (fuzz_execution run net N g) = length (fst (generate_fuzz_cases N g))"
    by (simp add: fuzz_execution_def)
  ultimately show ?thesis using cases_eq len ok assms by auto
qed

lemma sample_cases: "fst (generate_fuzz_cases 2 sample_rng) = [''kryF'', ''T07<bipwDKRY5&'' @ [CHR 0x5C] @ ''gnuBIPW3;'' @ [CHR 0x22] @ ''elszGNU18$cjqx'', ''; ls'', ''| cat /etc/passwd'']"
  by code_simp


theorem fuzz_cases_count_and_shape_witness:
  "(0::int) \<le> 2
   \<and> fst (generate_fuzz_cases 2 sample_rng) =
       [''kryF'', ''T07<bipwDKRY5&'' @ [CHR 0x5C] @ ''gnuBIPW3;'' @ [CHR 0x22] @ ''elszGNU18$cjqx'',
        ''; ls'', ''| cat /etc/passwd'']
   \<and> int (length (fst (generate_fuzz_cases 2 sample_rng))) \<le> 2 * 2
   \<and> length (fuzz_execution (\<lambda>_. Inl ''failed'') (\<lambda>_. []) 2 sample_rng) = 4"
proof -
  have n: "(0::int) \<le> 2" by simp
  from fuzz_cases_count_and_shape [OF n, of sample_rng "\<lambda>_. Inl ''failed''" "\<lambda>_. []"]
  have le: "int (length (fst (generate_fuzz_cases 2 sample_rng))) \<le> 2 * 2"
    and ex: "length (fuzz_execution (\<lambda>_. Inl ''failed'') (\<lambda>_. []) 2 sample_rng)
               = length (fst (generate_fuzz_cases 2 sample_rng))"
    by blast+
  from ex have "length (fuzz_execution (\<lambda>_. Inl ''failed'') (\<lambda>_. []) 2 sample_rng) = 4"
    by (simp add: sample_cases)
  with n le show ?thesis by (simp add: sample_cases)
qed

subsection \<open>Line numbers of fuzz results and file operations\<close>

lemma traceback_group:
  assumes "(pre', rest', caps') \<in> set (bt traceback_rx s)"
  shows "\<exists>x. map_of caps' 1 = Some (CHR 0x5C # x)"
proof -
  from assms obtain s3 where
    "(pre', rest', caps') \<in> set (bt (Grp 1 (Seq (Chr (\<lambda>c. c = CHR 0x5C)) (Plus (\<lambda>c. c = CHR ''d'')))) s3)"
    unfolding traceback_rx_def bt_Seq_iff by blast
  then obtain p r c where
    "(pre', rest', caps') \<in> set (bt (Grp 1 (Seq (Chr (\<lambda>c. c = CHR 0x5C)) (Plus (\<lambda>c. c = CHR ''d'')))) (p, r, c))"
    by (metis prod_cases3)
  from grp_chr_first [OF this] show ?thesis by blast
qed

lemma file_stack_group:
  assumes "(pre', rest', caps') \<in> set (bt file_stack_rx s)"
  shows "\<exists>x. map_of caps' 2 = Some (CHR 0x5C # x)"
proof -
  from assms obtain s3 where
    "(pre', rest', caps') \<in> set (bt (Grp 2 (Seq (Chr (\<lambda>c. c = CHR 0x5C)) (Plus (\<lambda>c. c = CHR ''d'')))) s3)"
    unfolding file_stack_rx_def bt_Seq_iff by blast
  then obtain p r c where
    "(pre', rest', caps') \<in> set (bt (Grp 2 (Seq (Chr (\<lambda>c. c = CHR 0x5C)) (Plus (\<lambda>c. c = CHR ''d'')))) (p, r, c))"
    by (metis prod_cases3)
  from grp_chr_first [OF this] show ?thesis by blast
qed

lemma stderr_line_numbers_empty: "stderr_line_numbers err = []"
proof -
  have "ints_of_group 1 (re_finditer traceback_rx err) = []"
  proof (rule ints_of_group_none)
    fix m assume "m \<in> set (re_finditer traceback_rx err)"
    then obtain x where "map_of (m_groups m) 1 = Some (CHR 0x5C # x)"
      by (blast dest: re_finditer_groups traceback_group)
    then show "py_int (group m 1) = None" by (simp add: group_def py_int_backslash)
  qed
  then show ?thesis by (simp add: stderr_line_numbers_def)
qed

lemma file_line_at_most_one:
  "analyze_file_line line = [] \<or>
     (\<exists>op. analyze_file_line line = [op] \<and>
        fo_line_numbers op = (if py_in ''stack='' line
                                       then ints_of_group 2 (re_finditer file_stack_rx line)
                                       else []))"
  unfolding analyze_file_line_def Let_def
  by (simp split: list.split)

lemma file_line_numbers_empty: "concat (map fo_line_numbers (analyze_file_line line)) = []"
proof -
  have e: "ints_of_group 2 (re_finditer file_stack_rx line) = []"
  proof (rule ints_of_group_none)
    fix m assume "m \<in> set (re_finditer file_stack_rx line)"
    then obtain x where "map_of (m_groups m) 2 = Some (CHR 0x5C # x)"
      by (blast dest: re_finditer_groups file_stack_group)
    then show "py_int (group m 2) = None" by (simp add: group_def py_int_backslash)
  qed
  from file_line_at_most_one [of line] show ?thesis
  proof
    assume "analyze_file_line line = []"
    then show ?thesis by simp
  next
    assume "\<exists>op. analyze_file_line line = [op] \<and>
        fo_line_numbers op = (if py_in ''stack='' line
                                       then ints_of_group 2 (re_finditer file_stack_rx line)
                                       else [])"
    then obtain op where "analyze_file_line line = [op]" and "fo_line_numbers op = []"
      using e by auto
    then show ?thesis by simp
  qed
qed

lemma file_activity_line_numbers_empty: "concat (map fo_line_numbers (analyze_file_activity lines)) = []"
  by (induction lines) (simp_all add: analyze_file_activity_def file_line_numbers_empty)

lemma stack_lines_file_log_line: "stack_lines file_log_line = [12, 30]"
  by (simp add: file_log_line_def stack_lines_def ints_of_group_def re_finditer_def stack_rx_def match_at_def group_def py_int_def int_body_def strip_def is_digit_def is_alpha_def py_isspace_def)

lemma analyze_file_log_line:
  "analyze_file_activity [file_log_line] =
     [\<lparr>fo_operation = ''read'', fo_file_path = ''/etc/passwd'', fo_mode = ''r'',
       fo_is_sensitive = True, fo_line_numbers = []\<rparr>]"
  by (simp add: analyze_file_activity_def analyze_file_line_def file_log_line_def Let_def py_split_def py_split1_def
      strip_def py_isspace_def lower_def lower_char_def file_stack_rx_def ints_of_group_def re_finditer_def
      match_at_def group_def is_alpha_def)

text \<open>
  C8 (the code does not do this). The pattern that reads \<^verbatim>\<open>File "<path>", line <N>\<close>
  out of the standard error of a fuzz run, and the pattern that reads the
  \<^verbatim>\<open><path>:<N>\<close> entries out of a file-operation log line, have their backslashes
  doubled inside a raw string: they ask for a backslash and the letter \<^verbatim>\<open>d\<close> where
  the digits are. On a real traceback and on a real log line with a \<^verbatim>\<open>stack=\<close> suffix
  both recover nothing, and they recover nothing on any input; the pattern of the threat
  identifier, written with single backslashes, reads 12 and 30 out of the same log line.
\<close>

theorem traceback_line_numbers_lost:
  "py_in (''File '' @ [CHR 0x22] @ ''/app/target.py'' @ [CHR 0x22] @ '', line 12'') traceback_text
   \<and> stderr_line_numbers traceback_text = []
   \<and> (\<forall>err. stderr_line_numbers err = [])
   \<and> py_in ''stack=/app/target.py:12 -> /app/target.py:30'' file_log_line
   \<and> map fo_line_numbers (analyze_file_activity [file_log_line]) = [[]]
   \<and> (\<forall>lines. concat (map fo_line_numbers (analyze_file_activity lines)) = [])
   \<and> stack_lines file_log_line = [12, 30]"
  by (simp add: stderr_line_numbers_empty file_activity_line_numbers_empty stack_lines_file_log_line
       analyze_file_log_line) (simp add: traceback_text_def file_log_line_def)

subsection \<open>Control flow structures\<close>

lemma direct_max_ge: "m \<le> direct_max m ss"
proof (induction ss arbitrary: m)
  case Nil
  show ?case by simp
next
  case (Cons s ss)
  have "m \<le> max m (lineno s)" by simp
  also have "\<dots> \<le> direct_max (max m (lineno s)) ss" by (rule Cons.IH)
  finally show ?case by simp
qed

lemma body_max_ge: "m \<le> body_max m ss"
proof (induction ss arbitrary: m)
  case Nil
  show ?case by simp
next
  case (Cons s ss)
  let ?m = "if is_structure s then max (max m (lineno s)) (get_end_line s) else max m (lineno s)"
  have "m \<le> ?m" by (simp add: le_max_iff_disj)
  also have "?m \<le> body_max ?m ss" by (rule Cons.IH)
  finally show ?case by simp
qed

lemma body_max_lineno: "x \<in> set ss \<Longrightarrow> lineno x \<le> body_max m ss"
proof (induction ss arbitrary: m)
  case Nil
  then show ?case by simp
next
  case (Cons s ss)
  let ?m = "if is_structure s then max (max m (lineno s)) (get_end_line s) else max m (lineno s)"
  show ?case
  proof (cases "x = s")
    case True
    have "lineno s \<le> ?m" by (simp add: le_max_iff_disj)
    also have "?m \<le> body_max ?m ss" by (rule body_max_ge)
    finally show ?thesis using True by simp
  next
    case False
    with Cons.prems have "x \<in> set ss" by simp
    from Cons.IH [OF this, of ?m] show ?thesis by simp
  qed
qed

lemma get_end_line_ge_body: "body_max (lineno s) (stmt_body s) \<le> get_end_line s"
proof (cases s)
  case (Try_stmt l b hs e f)
  have "body_max l b \<le> direct_max (body_max l b) e" by (rule direct_max_ge)
  also have "\<dots> \<le> direct_max (direct_max (body_max l b) e) f" by (rule direct_max_ge)
  finally show ?thesis using Try_stmt by simp
qed (simp_all add: direct_max_ge)

lemma get_end_line_ge: "lineno s \<le> get_end_line s"
  using body_max_ge [of "lineno s" "stmt_body s"] get_end_line_ge_body [of s] by simp

lemma get_end_line_body: "x \<in> set (stmt_body s) \<Longrightarrow> lineno x \<le> get_end_line s"
  using body_max_lineno [of x "stmt_body s" "lineno s"] get_end_line_ge_body [of s] by simp

lemma lineno_in_stmt_lines: "lineno x \<in> set (stmt_lines x)"
  by (cases x) simp_all

lemma set_get_body_lines: "set (get_body_lines b) = (\<Union>x \<in> set b. set (stmt_lines x))"
  by (simp add: sorted_set_props)

lemma lineno_in_body_lines: "x \<in> set b \<Longrightarrow> lineno x \<in> set (get_body_lines b)"
  unfolding set_get_body_lines using lineno_in_stmt_lines by blast

lemma get_body_lines_sorted: "sorted (get_body_lines b) \<and> distinct (get_body_lines b)"
  by (simp add: sorted_set_props)

lemma below_mono: "below n s \<Longrightarrow> m \<le> n \<Longrightarrow> below m s"
  by (cases s) simp_all

lemma below_lineno: "below n s \<Longrightarrow> n \<le> lineno s"
  by (cases s) simp_all

lemma below_self: "below n s \<Longrightarrow> below (lineno s) s"
  by (cases s) simp_all

lemma stmt_lines_below:
  "list_all (below n) b \<Longrightarrow> \<forall>l \<in> set (get_body_lines b). n \<le> l"
  "below n s \<Longrightarrow> \<forall>l \<in> set (stmt_lines s). n \<le> l"
proof (induction b and s arbitrary: n and n rule: get_body_lines_stmt_lines.induct)
  case (1 body)
  show ?case
  proof
    fix l assume "l \<in> set (get_body_lines body)"
    then obtain x where x: "x \<in> set body" and l: "l \<in> set (stmt_lines x)"
      unfolding set_get_body_lines by blast
    from "1.prems" x have "below n x" by (simp add: list_all_iff)
    from "1.IH" [OF x this] l show "n \<le> l" by blast
  qed
next
  case (2 l b e)
  from "2.prems" have n: "n \<le> l" and b: "list_all (below l) b" and e: "list_all (below l) e"
    by simp_all
  from "2.IH"(1) [OF b] n have "\<forall>x \<in> set (get_body_lines b). n \<le> x" by fastforce
  moreover have "e \<noteq> [] \<Longrightarrow> \<forall>x \<in> set (get_body_lines e). n \<le> x"
    using "2.IH"(2) [OF _ e] n by fastforce
  ultimately show ?case using n by (cases "e = []") (auto simp del: get_body_lines.simps)
next
  case (3 l b e)
  from "3.prems" have n: "n \<le> l" and b: "list_all (below l) b" and e: "list_all (below l) e"
    by simp_all
  from "3.IH"(1) [OF b] n have "\<forall>x \<in> set (get_body_lines b). n \<le> x" by fastforce
  moreover have "e \<noteq> [] \<Longrightarrow> \<forall>x \<in> set (get_body_lines e). n \<le> x"
    using "3.IH"(2) [OF _ e] n by fastforce
  ultimately show ?case using n by (cases "e = []") (auto simp del: get_body_lines.simps)
next
  case (4 l b e)
  from "4.prems" have n: "n \<le> l" and b: "list_all (below l) b" and e: "list_all (below l) e"
    by simp_all
  from "4.IH"(1) [OF b] n have "\<forall>x \<in> set (get_body_lines b). n \<le> x" by fastforce
  moreover have "e \<noteq> [] \<Longrightarrow> \<forall>x \<in> set (get_body_lines e). n \<le> x"
    using "4.IH"(2) [OF _ e] n by fastforce
  ultimately show ?case using n by (cases "e = []") (auto simp del: get_body_lines.simps)
next
  case (5 l b hs e f)
  from "5.prems" have n: "n \<le> l" and b: "list_all (below l) b" and e: "list_all (below l) e"
    and f: "list_all (below l) f" and hs: "list_all (list_all (below l)) hs"
    by simp_all
  from "5.IH"(1) [OF b] n have 1: "\<forall>x \<in> set (get_body_lines b). n \<le> x" by fastforce
  have 2: "\<forall>h \<in> set hs. \<forall>x \<in> set (get_body_lines h). n \<le> x"
  proof
    fix h assume h: "h \<in> set hs"
    with hs have "list_all (below l) h" by (simp add: list_all_iff)
    from "5.IH"(2) [OF h this] n show "\<forall>x \<in> set (get_body_lines h). n \<le> x" by fastforce
  qed
  have 3: "e \<noteq> [] \<Longrightarrow> \<forall>x \<in> set (get_body_lines e). n \<le> x"
    using "5.IH"(3) [OF _ e] n by fastforce
  have 4: "f \<noteq> [] \<Longrightarrow> \<forall>x \<in> set (get_body_lines f). n \<le> x"
    using "5.IH"(4) [OF _ f] n by fastforce
  from 1 2 3 4 n show ?case
    by (cases "e = []"; cases "f = []") (auto simp del: get_body_lines.simps)
next
  case (6 l b)
  then show ?case by simp
qed

lemma concat_map_concat:
  "concat (map f (concat xss)) = concat (map (\<lambda>xs. concat (map f xs)) xss)"
  by (induction xss) simp_all

lemma visit_nodes: "cfg_visit s = concat (map cfg_structure (nodes s))"
proof (induction s rule: cfg_visit.induct)
  case (1 l b e)
  have "concat (map cfg_visit b) = concat (map (\<lambda>x. concat (map cfg_structure (nodes x))) b)"
    by (rule arg_cong [where f = concat], rule map_cong) (simp_all add: "1.IH")
  moreover have "concat (map cfg_visit e) = concat (map (\<lambda>x. concat (map cfg_structure (nodes x))) e)"
    by (rule arg_cong [where f = concat], rule map_cong) (simp_all add: "1.IH")
  ultimately show ?case by (simp add: concat_map_concat comp_def)
next
  case (2 l b e)
  have "concat (map cfg_visit b) = concat (map (\<lambda>x. concat (map cfg_structure (nodes x))) b)"
    by (rule arg_cong [where f = concat], rule map_cong) (simp_all add: "2.IH")
  moreover have "concat (map cfg_visit e) = concat (map (\<lambda>x. concat (map cfg_structure (nodes x))) e)"
    by (rule arg_cong [where f = concat], rule map_cong) (simp_all add: "2.IH")
  ultimately show ?case by (simp add: concat_map_concat comp_def)
next
  case (3 l b e)
  have "concat (map cfg_visit b) = concat (map (\<lambda>x. concat (map cfg_structure (nodes x))) b)"
    by (rule arg_cong [where f = concat], rule map_cong) (simp_all add: "3.IH")
  moreover have "concat (map cfg_visit e) = concat (map (\<lambda>x. concat (map cfg_structure (nodes x))) e)"
    by (rule arg_cong [where f = concat], rule map_cong) (simp_all add: "3.IH")
  ultimately show ?case by (simp add: concat_map_concat comp_def)
next
  case (4 l b hs e f)
  have "concat (map cfg_visit b) = concat (map (\<lambda>x. concat (map cfg_structure (nodes x))) b)"
    by (rule arg_cong [where f = concat], rule map_cong) (simp_all add: "4.IH")
  moreover have "concat (map cfg_visit e) = concat (map (\<lambda>x. concat (map cfg_structure (nodes x))) e)"
    by (rule arg_cong [where f = concat], rule map_cong) (simp_all add: "4.IH")
  moreover have "concat (map cfg_visit f) = concat (map (\<lambda>x. concat (map cfg_structure (nodes x))) f)"
    by (rule arg_cong [where f = concat], rule map_cong) (simp_all add: "4.IH")
  moreover have "concat (map (\<lambda>h. concat (map cfg_visit h)) hs)
      = concat (map (\<lambda>h. concat (map (\<lambda>x. concat (map cfg_structure (nodes x))) h)) hs)"
  proof (rule arg_cong [where f = concat], rule map_cong)
    fix h assume h: "h \<in> set hs"
    show "concat (map cfg_visit h) = concat (map (\<lambda>x. concat (map cfg_structure (nodes x))) h)"
      by (rule arg_cong [where f = concat], rule map_cong) (simp_all add: "4.IH"(2) [OF h])
  qed simp
  ultimately show ?case by (simp add: concat_map_concat comp_def)
next
  case (5 l b)
  have "concat (map cfg_visit b) = concat (map (\<lambda>x. concat (map cfg_structure (nodes x))) b)"
    by (rule arg_cong [where f = concat], rule map_cong) (simp_all add: "5.IH")
  then show ?case by (simp add: concat_map_concat comp_def)
qed

lemma analyze_nodes: "cfg_analyze (Some tree) = concat (map cfg_structure (tree_nodes tree))"
proof -
  have "concat (map cfg_visit tree) = concat (map (\<lambda>x. concat (map cfg_structure (nodes x))) tree)"
    by (rule arg_cong [where f = concat], rule map_cong) (simp_all add: visit_nodes)
  then show ?thesis by (simp add: tree_nodes_def concat_map_concat comp_def)
qed

lemma nodes_below: "below n s \<Longrightarrow> x \<in> set (nodes s) \<Longrightarrow> below (lineno x) x"
proof (induction s arbitrary: n rule: nodes.induct)
  case (1 l b e)
  from "1.prems" "1.IH" show ?case by (fastforce simp: list_all_iff)
next
  case (2 l b e)
  from "2.prems" "2.IH" show ?case by (fastforce simp: list_all_iff)
next
  case (3 l b e)
  from "3.prems" "3.IH" show ?case by (fastforce simp: list_all_iff)
next
  case (4 l b hs e f)
  from "4.prems" "4.IH" show ?case by (fastforce simp: list_all_iff)
next
  case (5 l b)
  from "5.prems" "5.IH" show ?case by (fastforce simp: list_all_iff)
qed

lemma tree_nodes_below:
  "well_formed tree \<Longrightarrow> s \<in> set (tree_nodes tree) \<Longrightarrow> list_all (below (lineno s)) (stmt_body s)"
proof -
  assume wf: "well_formed tree" and s: "s \<in> set (tree_nodes tree)"
  from s obtain r where r: "r \<in> set tree" and sr: "s \<in> set (nodes r)"
    by (auto simp: tree_nodes_def)
  from wf r have "below 1 r" by (simp add: well_formed_def list_all_iff)
  from nodes_below [OF this sr] show ?thesis by (cases s) simp_all
qed

lemma cfg_structure_fields:
  "c \<in> set (cfg_structure s) \<Longrightarrow>
     start_line c = lineno s \<and> end_line c = get_end_line s \<and> body_lines c = get_body_lines (stmt_body s)"
  by (cases s) auto

lemma analyze_samples:
  "map (\<lambda>c. (start_line c, end_line c, body_lines c)) (cfg_analyze (Some if_two_lines)) = [(1, 2, [2])]"
  "map (\<lambda>c. (start_line c, end_line c, body_lines c)) (cfg_analyze (Some if_one_line)) = [(1, 1, [1])]"
  "map (\<lambda>c. (start_line c, end_line c, body_lines c)) (cfg_analyze (Some for_try_except))
     = [(1, 3, [2, 3, 5]), (2, 3, [3])]"
  "well_formed if_two_lines" "well_formed if_one_line" "well_formed for_try_except"
  by code_simp+

lemma direct_max_attained: "direct_max m ss = m \<or> direct_max m ss \<in> lineno ` set ss"
proof (induction ss arbitrary: m)
  case Nil
  show ?case by simp
next
  case (Cons s ss)
  from Cons.IH [of "max m (lineno s)"] show ?case by (auto simp: max_def split: if_splits)
qed

lemma nodes_self: "s \<in> set (nodes s)"
  by (cases s) simp_all

lemma nodes_body: "x \<in> set (stmt_body s) \<Longrightarrow> set (nodes x) \<subseteq> set (nodes s)"
  by (cases s) auto

lemma end_line_attained:
  "body_max m ss = m \<or> body_max m ss \<in> lineno ` (\<Union>x \<in> set ss. set (nodes x))"
  "get_end_line s \<in> lineno ` set (nodes s)"
proof (induction m ss and s rule: body_max_get_end_line.induct)
  case (1 max_line)
  show ?case by simp
next
  case (2 max_line s ss)
  let ?m = "if is_structure s then max (max max_line (lineno s)) (get_end_line s)
            else max max_line (lineno s)"
  have m: "?m = max_line \<or> ?m \<in> lineno ` set (nodes s)"
  proof (cases "is_structure s")
    case True
    with "2.IH"(1) nodes_self [of s] show ?thesis by (auto simp: max_def)
  next
    case False
    with nodes_self [of s] show ?thesis by (auto simp: max_def)
  qed
  from "2.IH"(2) have "body_max ?m ss = ?m \<or> body_max ?m ss \<in> lineno ` (\<Union>x \<in> set ss. set (nodes x))" .
  with m show ?case by auto
next
  case (3 l b e)
  from "3.IH" direct_max_attained [of "body_max l b" e] nodes_self show ?case by fastforce
next
  case (4 l b e)
  from "4.IH" direct_max_attained [of "body_max l b" e] nodes_self show ?case by fastforce
next
  case (5 l b e)
  from "5.IH" direct_max_attained [of "body_max l b" e] nodes_self show ?case by fastforce
next
  case (6 l b hs e f)
  from "6.IH" direct_max_attained [of "body_max l b" e]
    direct_max_attained [of "direct_max (body_max l b) e" f] nodes_self
  show ?case by fastforce
next
  case (7 l b)
  from "7.IH" show ?case by fastforce
qed

lemma stmt_lines_nested:
  "l \<in> set (get_body_lines b) \<Longrightarrow> \<exists>x \<in> set b. \<exists>y \<in> set (nodes x). l = lineno y"
  "l \<in> set (stmt_lines s) \<Longrightarrow> \<exists>y \<in> set (nodes s). l = lineno y"
proof (induction b and s arbitrary: l and l rule: get_body_lines_stmt_lines.induct)
  case (1 body)
  from "1.prems" obtain x where x: "x \<in> set body" and l: "l \<in> set (stmt_lines x)"
    unfolding set_get_body_lines by blast
  from "1.IH" [OF x l] x show ?case by blast
next
  case (2 l0 b e)
  from "2.prems" consider "l = l0" | "l \<in> set (get_body_lines b)"
    | "e \<noteq> []" "l \<in> set (get_body_lines e)"
    by (auto simp del: get_body_lines.simps split: if_splits)
  then show ?case
  proof cases
    case 1
    then show ?thesis by simp
  next
    case 2
    from "2.IH"(1) [OF this] show ?thesis by auto
  next
    case 3
    from "2.IH"(2) [OF this] show ?thesis by auto
  qed
next
  case (3 l0 b e)
  from "3.prems" consider "l = l0" | "l \<in> set (get_body_lines b)"
    | "e \<noteq> []" "l \<in> set (get_body_lines e)"
    by (auto simp del: get_body_lines.simps split: if_splits)
  then show ?case
  proof cases
    case 1
    then show ?thesis by simp
  next
    case 2
    from "3.IH"(1) [OF this] show ?thesis by auto
  next
    case 3
    from "3.IH"(2) [OF this] show ?thesis by auto
  qed
next
  case (4 l0 b e)
  from "4.prems" consider "l = l0" | "l \<in> set (get_body_lines b)"
    | "e \<noteq> []" "l \<in> set (get_body_lines e)"
    by (auto simp del: get_body_lines.simps split: if_splits)
  then show ?case
  proof cases
    case 1
    then show ?thesis by simp
  next
    case 2
    from "4.IH"(1) [OF this] show ?thesis by auto
  next
    case 3
    from "4.IH"(2) [OF this] show ?thesis by auto
  qed
next
  case (5 l0 b hs e f)
  from "5.prems" consider "l = l0" | "l \<in> set (get_body_lines b)"
    | h where "h \<in> set hs" "l \<in> set (get_body_lines h)"
    | "e \<noteq> []" "l \<in> set (get_body_lines e)"
    | "f \<noteq> []" "l \<in> set (get_body_lines f)"
    by (auto simp del: get_body_lines.simps split: if_splits)
  then show ?case
  proof cases
    case 1
    then show ?thesis by simp
  next
    case 2
    from "5.IH"(1) [OF this] show ?thesis by auto
  next
    case 3
    from "5.IH"(2) [OF this] 3(1) show ?thesis by auto
  next
    case 4
    from "5.IH"(3) [OF this] show ?thesis by auto
  next
    case 5
    from "5.IH"(4) [OF this] show ?thesis by auto
  qed
next
  case (6 l0 b)
  then show ?case by simp
qed

text \<open>
  The two-line program \<^verbatim>\<open>if x:\<close> / \<^verbatim>\<open>y = 1\<close> is well formed; its one structure starts
  on line 1, ends on line 2 and has the body lines \<open>[2]\<close>: the last body line is the end
  line, not a line strictly below it.
\<close>

theorem body_lines_strict_bounds_counterexample:
  "well_formed if_two_lines
   \<and> \<not> (\<forall>c \<in> set (cfg_analyze (Some if_two_lines)).
           \<forall>l \<in> set (body_lines c). start_line c < l \<and> l < end_line c)"
proof -
  have "\<exists>c \<in> set (cfg_analyze (Some if_two_lines)). 2 \<in> set (body_lines c) \<and> end_line c = 2"
    by code_simp
  then have "\<not> (\<forall>c \<in> set (cfg_analyze (Some if_two_lines)).
           \<forall>l \<in> set (body_lines c). start_line c < l \<and> l < end_line c)"
    by fastforce
  with analyze_samples(4) show ?thesis by simp
qed

text \<open>
  C4 (as amended). The result of the analyzer is the list of the records of the
  structures of the tree, in the order of the traversal. For every structure of the tree
  and its record: \<open>body_lines\<close> is sorted in ascending order and has no duplicates;
  \<open>start_line\<close> is the line of the structure and is at most \<open>end_line\<close>, which is
  the line of the structure or of a statement nested in it; the line of every statement
  directly in the body is in \<open>body_lines\<close> and is at most \<open>end_line\<close>; every value of
  \<open>body_lines\<close> is the line of a statement of the body or of a statement nested in one;
  and in a tree as the parser builds it (no statement above the statement it is nested
  in) every value of \<open>body_lines\<close> is at least \<open>start_line\<close>. The bounds are not strict,
  and a line of \<open>body_lines\<close> that comes from a handler or an else branch of a nested
  structure can lie above \<open>end_line\<close>.
\<close>

theorem body_lines_sorted_distinct_bounded:
  "cfg_analyze (Some tree) = concat (map cfg_structure (tree_nodes tree))
   \<and> (\<forall>s \<in> set (tree_nodes tree). \<forall>c \<in> set (cfg_structure s).
         sorted (body_lines c) \<and> distinct (body_lines c)
         \<and> start_line c = lineno s \<and> start_line c \<le> end_line c
         \<and> end_line c \<in> lineno ` set (nodes s)
         \<and> (\<forall>x \<in> set (stmt_body s). lineno x \<in> set (body_lines c) \<and> lineno x \<le> end_line c)
         \<and> (\<forall>l \<in> set (body_lines c). \<exists>x \<in> set (stmt_body s). \<exists>y \<in> set (nodes x). l = lineno y)
         \<and> (well_formed tree \<longrightarrow> (\<forall>l \<in> set (body_lines c). start_line c \<le> l)))"
proof (intro conjI ballI impI)
  show "cfg_analyze (Some tree) = concat (map cfg_structure (tree_nodes tree))"
    by (rule analyze_nodes)
next
  fix s c assume s: "s \<in> set (tree_nodes tree)" and c: "c \<in> set (cfg_structure s)"
  note f = cfg_structure_fields [OF c]
  from f show "sorted (body_lines c)" by (simp only: get_body_lines_sorted)
  from f show "distinct (body_lines c)" by (simp only: get_body_lines_sorted)
  from f show "start_line c = lineno s" by simp
  from f get_end_line_ge [of s] show "start_line c \<le> end_line c" by simp
  from f end_line_attained(2) [of s] show "end_line c \<in> lineno ` set (nodes s)" by simp
  {
    fix l assume "l \<in> set (body_lines c)"
    with f have "l \<in> set (get_body_lines (stmt_body s))" by simp
    from stmt_lines_nested(1) [OF this]
    show "\<exists>x \<in> set (stmt_body s). \<exists>y \<in> set (nodes x). l = lineno y" .
  }
  {
    fix x assume x: "x \<in> set (stmt_body s)"
    from f lineno_in_body_lines [OF x] show "lineno x \<in> set (body_lines c)" by simp
    from f get_end_line_body [OF x] show "lineno x \<le> end_line c" by simp
  }
  {
    fix l assume wf: "well_formed tree" and l: "l \<in> set (body_lines c)"
    from stmt_lines_below(1) [OF tree_nodes_below [OF wf s]] f l
    show "start_line c \<le> l" by simp
  }
qed

lemma for_try_except_record:
  "hd (cfg_analyze (Some for_try_except)) \<in> set (cfg_structure (hd for_try_except))"
  "hd for_try_except \<in> set (tree_nodes for_try_except)"
  "Try_stmt 2 [Other_stmt 3 []] [[Other_stmt 5 []]] [] [] \<in> set (stmt_body (hd for_try_except))"
  "5 \<in> set (body_lines (hd (cfg_analyze (Some for_try_except))))"
  "body_lines (hd (cfg_analyze (Some for_try_except))) = [2, 3, 5]"
  "end_line (hd (cfg_analyze (Some for_try_except))) = 3"
  by code_simp+

theorem body_lines_sorted_distinct_bounded_witness:
  "well_formed for_try_except
   \<and> sorted (body_lines (hd (cfg_analyze (Some for_try_except))))
   \<and> distinct (body_lines (hd (cfg_analyze (Some for_try_except))))
   \<and> start_line (hd (cfg_analyze (Some for_try_except))) \<le> 5
   \<and> 2 \<le> end_line (hd (cfg_analyze (Some for_try_except)))
   \<and> body_lines (hd (cfg_analyze (Some for_try_except))) = [2, 3, 5]
   \<and> end_line (hd (cfg_analyze (Some for_try_except))) = 3"
proof -
  let ?c = "hd (cfg_analyze (Some for_try_except))"
  let ?s = "hd for_try_except"
  note th = body_lines_sorted_distinct_bounded [of for_try_except]
  from th have "\<forall>s \<in> set (tree_nodes for_try_except). \<forall>c \<in> set (cfg_structure s).
         sorted (body_lines c) \<and> distinct (body_lines c)
         \<and> start_line c = lineno s \<and> start_line c \<le> end_line c
         \<and> end_line c \<in> lineno ` set (nodes s)
         \<and> (\<forall>x \<in> set (stmt_body s). lineno x \<in> set (body_lines c) \<and> lineno x \<le> end_line c)
         \<and> (\<forall>l \<in> set (body_lines c). \<exists>x \<in> set (stmt_body s). \<exists>y \<in> set (nodes x). l = lineno y)
         \<and> (well_formed for_try_except \<longrightarrow> (\<forall>l \<in> set (body_lines c). start_line c \<le> l))"
    by (rule conjunct2)
  from bspec [OF bspec [OF this for_try_except_record(2)] for_try_except_record(1)]
  have p: "sorted (body_lines ?c) \<and> distinct (body_lines ?c)
         \<and> start_line ?c = lineno ?s \<and> start_line ?c \<le> end_line ?c
         \<and> end_line ?c \<in> lineno ` set (nodes ?s)
         \<and> (\<forall>x \<in> set (stmt_body ?s). lineno x \<in> set (body_lines ?c) \<and> lineno x \<le> end_line ?c)
         \<and> (\<forall>l \<in> set (body_lines ?c). \<exists>x \<in> set (stmt_body ?s). \<exists>y \<in> set (nodes x). l = lineno y)
         \<and> (well_formed for_try_except \<longrightarrow> (\<forall>l \<in> set (body_lines ?c). start_line ?c \<le> l))" .
  from p have s: "sorted (body_lines ?c)" and d: "distinct (body_lines ?c)" by blast+
  from p analyze_samples(6) for_try_except_record(4) have lo: "start_line ?c \<le> 5" by blast
  from p for_try_except_record(3)
  have "lineno (Try_stmt 2 [Other_stmt 3 []] [[Other_stmt 5 []]] [] []) \<le> end_line ?c" by blast
  then have hi: "2 \<le> end_line ?c" by simp
  from analyze_samples(6) s d lo hi for_try_except_record(5,6) show ?thesis by blast
qed

subsection \<open>Taint analysis of Python code\<close>

lemma plain_visit:
  "plain n \<Longrightarrow> taint_visit dump n st = st"
  "list_all plain ns \<Longrightarrow> visit_all dump ns st = st"
  by (induction dump n st and dump ns st rule: taint_visit_visit_all.induct) simp_all

lemma plain_not_source: "plain a \<Longrightarrow> \<not> is_taint_source a"
  by (cases a) simp_all

lemma sink_nonempty: "is_taint_sink c = Some s \<Longrightarrow> s \<noteq> []"
  by (induction c rule: is_taint_sink.induct) (auto split: if_splits)

lemma call_args_flows:
  assumes "current_tainted_vars st = {v}" and "v \<noteq> []" and "var_assignments st v = Some l1"
    and "list_all plain args"
  shows "foldl (call_arg dump l2 sink) st args
     = st\<lparr>taint_flows_found := taint_flows_found st
            @ map (variable_flow dump sink l1 l2) (filter (\<lambda>a. get_variable_name a = Some v) args)\<rparr>"
  using assms
proof (induction args arbitrary: st)
  case Nil
  then show ?case by simp
next
  case (Cons a args)
  from Cons.prems have pa: "plain a" and pas: "list_all plain args" by simp_all
  let ?st = "call_arg dump l2 sink st a"
  have step: "?st = (if get_variable_name a = Some v
                     then st\<lparr>taint_flows_found := taint_flows_found st @ [variable_flow dump sink l1 l2 a]\<rparr>
                     else st)"
    using Cons.prems(1-3) plain_not_source [OF pa]
    by (auto simp: call_arg_def tainted_name_def variable_flow_def split: option.splits)
  then have inv: "current_tainted_vars ?st = {v}" "var_assignments ?st v = Some l1"
    using Cons.prems(1,3) by (simp_all split: if_splits)
  from Cons.IH [OF inv(1) Cons.prems(2) inv(2) pas] step show ?case by simp
qed

lemma assign_argv:
  assumes "get_variable_name target = Some v" and "v \<noteq> []"
  shows "taint_visit dump (Assign l1 [target] (argv_source k)) new_analyzer
     = new_analyzer\<lparr>current_tainted_vars := {v}, var_assignments := [v \<mapsto> l1],
         taint_sources := [\<lparr>se_source = ''sys.argv[...]'', se_line = l1, se_tainted_var = v\<rparr>]\<rparr>"
proof -
  from assms(1) have "plain target" by (cases target rule: get_variable_name.cases) simp_all
  then have "visit_all dump [target] st = st" for st by (simp add: plain_visit)
  then show ?thesis
    using assms by (simp add: argv_source_def visit_Assign_def assign_target_def new_analyzer_def)
qed

lemma visit_node_pair:
  "taint_visit dump (Node [a, Node [c]]) st = taint_visit dump c (taint_visit dump a st)"
  by simp

lemma analyze_assign_then_call:
  assumes tv: "get_variable_name target = Some v" and v: "v \<noteq> []"
    and sink: "is_taint_sink (Call l2 func args kws) = Some sink"
    and pf: "plain func" and pa: "list_all plain args" and pk: "list_all plain kws"
  shows "taint_analyze dump (Some (assign_then_call l1 target (argv_source k) (Call l2 func args kws)))
           = map (variable_flow dump sink l1 l2) (filter (\<lambda>a. get_variable_name a = Some v) args)"
proof -
  let ?st1 = "new_analyzer\<lparr>current_tainted_vars := {v}, var_assignments := [v \<mapsto> l1],
         taint_sources := [\<lparr>se_source = ''sys.argv[...]'', se_line = l1, se_tainted_var = v\<rparr>]\<rparr>"
  let ?st2 = "?st1\<lparr>taint_sinks := taint_sinks ?st1
                       @ [\<lparr>sk_sink = sink, sk_line = l2, sk_args = map (get_node_repr dump) args\<rparr>]\<rparr>"
  have inv: "current_tainted_vars ?st2 = {v}" "var_assignments ?st2 v = Some l1" by simp_all
  have call: "visit_Call dump l2 func args kws ?st1 = foldl (call_arg dump l2 sink) ?st2 args"
    using sink sink_nonempty [OF sink] by (simp add: visit_Call_def)
  have "taint_visit dump (Call l2 func args kws) ?st1 = foldl (call_arg dump l2 sink) ?st2 args"
    by (simp only: taint_visit.simps call plain_visit(1) [OF pf] plain_visit(2) [OF pa]
        plain_visit(2) [OF pk])
  also have "\<dots> = ?st2\<lparr>taint_flows_found := taint_flows_found ?st2
            @ map (variable_flow dump sink l1 l2) (filter (\<lambda>a. get_variable_name a = Some v) args)\<rparr>"
    by (rule call_args_flows [OF inv(1) v inv(2) pa])
  finally have "taint_flows_found (taint_visit dump (Call l2 func args kws) ?st1)
      = map (variable_flow dump sink l1 l2) (filter (\<lambda>a. get_variable_name a = Some v) args)"
    by (simp add: new_analyzer_def)
  then show ?thesis
    unfolding assign_then_call_def taint_analyze.simps visit_node_pair assign_argv [OF tv v] .
qed

lemma analyze_twice:
  "taint_analyze no_dump (Some argv_to_call_twice)
     = [variable_flow no_dump ''subprocess.call'' 1 2 (Name ''x''),
        variable_flow no_dump ''subprocess.call'' 1 2 (Name ''x'')]"
  unfolding argv_to_call_twice_def
  by (subst analyze_assign_then_call [where v = "''x''" and sink = "''subprocess.call''"]) simp_all





subsection \<open>Taint analysis of Go and Java code\<close>

lemma emit_ok:
  assumes "keys_ok st" and "\<exists>v. k = (lf_source_line f, lf_sink_line f, v, lf_rule_id f)"
  shows "keys_ok (emit k f st)"
  using assms unfolding keys_ok_def emit_def by auto

lemma var_step_ok: "keys_ok st \<Longrightarrow> keys_ok (var_step i line info mt st entry)"
  unfolding var_step_def
  by (cases entry) (auto intro!: emit_ok simp: var_flow_def)

lemma var_steps_ok: "keys_ok st \<Longrightarrow> keys_ok (foldl (var_step i line info mt) st entries)"
  by (induction entries arbitrary: st) (simp_all add: var_step_ok)

lemma tainted_update_ok: "keys_ok st \<Longrightarrow> keys_ok (st\<lparr>tainted_vars := t\<rparr>)"
  by (simp add: keys_ok_def)

lemma direct_ok:
  "keys_ok st \<Longrightarrow> keys_ok (emit (i, i, ''direct'', si_rule_id info) (direct_flow i line info mt) st)"
  by (rule emit_ok) (simp_all add: direct_flow_def)

lemma line_step_ok: "keys_ok st \<Longrightarrow> keys_ok (line_step lang st numbered)"
proof -
  assume ok: "keys_ok st"
  obtain n raw_line where numbered: "numbered = (n, raw_line)" by (cases numbered)
  show ?thesis
  proof (cases "strip raw_line = []")
    case True
    with ok numbered show ?thesis by (simp add: line_step_def)
  next
    case False
    let ?line = "strip raw_line"
    let ?st = "st\<lparr>tainted_vars := taint_assigned lang (int n) ?line (tainted_vars st)\<rparr>"
    have ok': "keys_ok ?st" using ok by (rule tainted_update_ok)
    show ?thesis
    proof (cases "match_sink (sink_rules lang) ?line")
      case None
      with False numbered ok' show ?thesis by (simp add: line_step_def Let_def)
    next
      case (Some p)
      obtain info mt where p: "p = (info, mt)" by (cases p)
      have "keys_ok (foldl (var_step (int n) ?line info mt)
                     (if list_ex (\<lambda>p. found p ?line) (taint_source_patterns lang)
                      then emit (int n, int n, ''direct'', si_rule_id info)
                             (direct_flow (int n) ?line info mt) ?st
                      else ?st)
                     (tainted_vars ?st))"
        by (rule var_steps_ok) (simp add: ok' direct_ok del: loop_state.simps)
      with False numbered Some p show ?thesis by (simp add: line_step_def Let_def)
    qed
  qed
qed

lemma line_steps_ok: "keys_ok st \<Longrightarrow> keys_ok (foldl (line_step lang) st numbered)"
  by (induction numbered arbitrary: st) (simp_all add: line_step_ok)

lemma line_loop_ok:
  "distinct (map fst (line_loop lang lines))
   \<and> (\<forall>(k, f) \<in> set (line_loop lang lines). \<exists>v. k = (lf_source_line f, lf_sink_line f, v, lf_rule_id f))"
proof -
  have "keys_ok \<lparr>tainted_vars = [], seen_flows = {}, keyed_flows = []\<rparr>"
    by (simp add: keys_ok_def)
  from line_steps_ok [OF this, of lang "List.enumerate 1 lines"]
  show ?thesis by (simp add: line_loop_def keys_ok_def)
qed





lemma go_samples:
  "map fst (line_loop go_language (strip_comments (py_split go_aliases nl)))
     = [(1, 3, ''a'', ''go_rce_exec_command''), (1, 3, ''b'', ''go_rce_exec_command'')]"
  "map (\<lambda>f. (lf_source_line f, lf_sink_line f, lf_rule_id f)) (go_taint_analyze (Some go_assigned_sink))
     = [(1, 2, ''go_rce_exec_command''), (1, 2, ''go_rce_exec_command'')]"
  "map (\<lambda>f. (lf_source_line f, lf_sink_line f, lf_severity f)) (go_taint_analyze (Some go_plain_sink))
     = [(1, 2, ''critical'')]"
  by code_simp+





text \<open>
  The Python program \<^verbatim>\<open>x = sys.argv[1]\<close> / \<^verbatim>\<open>subprocess.call(x, x)\<close> gives two flows
  with the same source line, sink line, variable and sink: the Python analyzer keeps no
  set of the keys it has seen.
\<close>

theorem python_flows_same_key_counterexample:
  "\<not> distinct (map flow_key (taint_analyze no_dump (Some argv_to_call_twice)))"
  unfolding analyze_twice by (simp add: flow_key_def variable_flow_def)

text \<open>
  C5 (as amended). The Go and the Java analyzer, for every source text (and the loop they
  share, for every list of lines and every set of source patterns, sink rules and
  assignment parser): every flow is found under a key that holds its source line, its
  sink line, a variable name or \<^verbatim>\<open>direct\<close>, and its rule id, and no two flows are found
  under the same key. Two names of one origin on one sink line give one flow for each
  name.
\<close>

theorem line_loop_keys_distinct:
  "distinct (map fst (line_loop lang lines))
   \<and> (\<forall>(k, f) \<in> set (line_loop lang lines). \<exists>v. k = (lf_source_line f, lf_sink_line f, v, lf_rule_id f))
   \<and> go_taint_analyze (Some src) = map snd (line_loop go_language (strip_comments (py_split src [CHR 0x0A])))
   \<and> java_taint_analyze (Some src)
       = map snd (line_loop java_language (strip_comments (py_split src [CHR 0x0A])))
   \<and> go_taint_analyze None = [] \<and> java_taint_analyze None = []"
  using line_loop_ok [of lang lines]
  by (simp add: go_taint_analyze_def java_taint_analyze_def analyze_source_def)

theorem line_loop_keys_distinct_witness:
  "distinct (map fst (line_loop go_language (strip_comments (py_split go_aliases nl))))
   \<and> map fst (line_loop go_language (strip_comments (py_split go_aliases nl)))
       = [(1, 3, ''a'', ''go_rce_exec_command''), (1, 3, ''b'', ''go_rce_exec_command'')]
   \<and> (\<exists>v. fst (hd (line_loop go_language (strip_comments (py_split go_aliases nl))))
            = (lf_source_line (snd (hd (line_loop go_language (strip_comments (py_split go_aliases nl))))),
               lf_sink_line (snd (hd (line_loop go_language (strip_comments (py_split go_aliases nl))))),
               v,
               lf_rule_id (snd (hd (line_loop go_language (strip_comments (py_split go_aliases nl)))))))"
proof -
  let ?r = "line_loop go_language (strip_comments (py_split go_aliases nl))"
  note th = line_loop_keys_distinct [of go_language "strip_comments (py_split go_aliases nl)" "[]"]
  from th have d: "distinct (map fst ?r)" by (rule conjunct1)
  from th have b: "\<forall>(k, f) \<in> set ?r. \<exists>v. k = (lf_source_line f, lf_sink_line f, v, lf_rule_id f)"
    by (rule conjunct1 [OF conjunct2])
  have "?r \<noteq> []" using go_samples(1) by auto
  then have "hd ?r \<in> set ?r" by simp
  from bspec [OF b this]
  have e: "\<exists>v. fst (hd ?r) = (lf_source_line (snd (hd ?r)), lf_sink_line (snd (hd ?r)), v,
                               lf_rule_id (snd (hd ?r)))"
    by (simp add: case_prod_beta)
  from d go_samples(1) e show ?thesis by (intro conjI) (simp_all only:)
qed

end
